theory Spec2Isabelle
  imports Complex_Main
begin

section \<open>Common data\<close>

text \<open>
  Primary keys are UUIDs drawn by \<open>uuid4()\<close>; the model takes the fresh key as an
  argument of the operation that creates the row. \<open>datetime.utcnow()\<close> is likewise an
  argument (one per call in the source). A table is the list of its rows in insertion
  order; \<open>session.get(Model, id)\<close> is the look-up of the row with that primary key.
\<close>

type_synonym uuid = nat
type_synonym datetime = nat

text \<open>The exceptions the modelled code raises.\<close>

datatype error =
    NotFoundError
  | InvalidStateTransitionError
  | JobNotFoundError
  | ValueError string
  | KeyError string
  | IndexError
  | IntegrityError

text \<open>
  The error kinds of the specification's taxonomy (its section 7), and the kind that an
  exception of the source carries: the kind its class is named after. Python's built-in
  \<open>ValueError\<close>, \<open>KeyError\<close> and \<open>IndexError\<close> and the database's
  \<open>IntegrityError\<close> are named after no kind, and no class of the source is named
  after \<open>DecisionAlreadyExists\<close>.
\<close>

datatype spec_error_kind =
    NotFound
  | ValidationError
  | SpecLoadError
  | SpecValidationError
  | InvalidStateTransition
  | CampaignLocked
  | DecisionAlreadyExists
  | PluginNotFound
  | ExecutionError
  | JobNotFound
  | JobAlreadyRunning
  | RepositoryError

fun error_kind :: "error \<Rightarrow> spec_error_kind option" where
  "error_kind NotFoundError = Some NotFound"
| "error_kind InvalidStateTransitionError = Some InvalidStateTransition"
| "error_kind JobNotFoundError = Some JobNotFound"
| "error_kind (ValueError msg) = None"
| "error_kind (KeyError k) = None"
| "error_kind IndexError = None"
| "error_kind IntegrityError = None"

text \<open>Python's \<open>str(n)\<close> for an integer, used by the f-strings of error messages.\<close>

fun str_nat :: "nat \<Rightarrow> string" where
  "str_nat n =
     (if n < 10 then [''0123456789'' ! n]
      else str_nat (n div 10) @ [''0123456789'' ! (n mod 10)])"

declare str_nat.simps [simp del]

definition str_int :: "int \<Rightarrow> string" where
  "str_int i = (if i < 0 then CHR ''-'' # str_nat (nat (- i)) else str_nat (nat i))"

section \<open>Campaign repository: status transitions\<close>

datatype CampaignStatus = CREATED | ACTIVE | PAUSED | COMPLETED | ARCHIVED

record Campaign =
  campaign_id :: uuid
  campaign_process_id :: uuid
  campaign_name :: string
  campaign_status :: CampaignStatus
  campaign_updated_at :: "datetime option"

text \<open>\<open>CampaignRepository.VALID_TRANSITIONS\<close>, the table of the source.\<close>

fun VALID_TRANSITIONS :: "CampaignStatus \<Rightarrow> CampaignStatus set" where
  "VALID_TRANSITIONS CREATED = {ACTIVE}"
| "VALID_TRANSITIONS ACTIVE = {PAUSED, COMPLETED}"
| "VALID_TRANSITIONS PAUSED = {ACTIVE, ARCHIVED}"
| "VALID_TRANSITIONS COMPLETED = {ARCHIVED}"
| "VALID_TRANSITIONS ARCHIVED = {}"

text \<open>\<open>BaseRepository.get\<close> and \<open>get_or_raise\<close> on the campaigns table.\<close>

definition campaign_get :: "Campaign list \<Rightarrow> uuid \<Rightarrow> Campaign option" where
  "campaign_get tbl cid = find (\<lambda>c. campaign_id c = cid) tbl"

definition campaign_get_or_raise :: "Campaign list \<Rightarrow> uuid \<Rightarrow> error + Campaign" where
  "campaign_get_or_raise tbl cid =
     (case campaign_get tbl cid of None \<Rightarrow> Inl NotFoundError | Some c \<Rightarrow> Inr c)"

text \<open>\<open>BaseRepository.update\<close>: stamps \<open>updated_at\<close> and writes the row back.\<close>

definition campaign_update :: "Campaign list \<Rightarrow> Campaign \<Rightarrow> datetime \<Rightarrow> Campaign \<times> Campaign list" where
  "campaign_update tbl c now =
     (let c' = c\<lparr>campaign_updated_at := Some now\<rparr>
      in (c', map (\<lambda>r. if campaign_id r = campaign_id c' then c' else r) tbl))"

text \<open>\<open>CampaignRepository.update_status\<close>.\<close>

definition update_status ::
  "Campaign list \<Rightarrow> uuid \<Rightarrow> CampaignStatus \<Rightarrow> datetime \<Rightarrow> error + (Campaign \<times> Campaign list)" where
  "update_status tbl cid new_status now =
     (case campaign_get_or_raise tbl cid of
        Inl e \<Rightarrow> Inl e
      | Inr campaign \<Rightarrow>
          let valid_next = VALID_TRANSITIONS (campaign_status campaign) in
          if new_status \<notin> valid_next then Inl InvalidStateTransitionError
          else Inr (campaign_update tbl (campaign\<lparr>campaign_status := new_status\<rparr>) now))"

text \<open>
  The transition graph as the specification draws it (section 4.5), for comparison with
  the table of the source.
\<close>

definition spec_transition_graph :: "(CampaignStatus \<times> CampaignStatus) set" where
  "spec_transition_graph =
     {(CREATED, ACTIVE), (ACTIVE, PAUSED), (ACTIVE, COMPLETED),
      (PAUSED, ACTIVE), (PAUSED, ARCHIVED), (COMPLETED, ARCHIVED)}"

text \<open>
  A request is a call of \<open>update_status\<close>; a failed call raises and leaves the table as
  it was. \<open>status_history\<close> lists the status of one campaign before the first request
  and after each request of a sequence.
\<close>

definition request :: "Campaign list \<Rightarrow> uuid \<times> CampaignStatus \<times> datetime \<Rightarrow> Campaign list" where
  "request tbl r =
     (case update_status tbl (fst r) (fst (snd r)) (snd (snd r)) of
        Inl e \<Rightarrow> tbl
      | Inr (c, tbl') \<Rightarrow> tbl')"

fun status_history ::
  "Campaign list \<Rightarrow> uuid \<Rightarrow> (uuid \<times> CampaignStatus \<times> datetime) list \<Rightarrow> CampaignStatus option list" where
  "status_history tbl cid [] = [map_option campaign_status (campaign_get tbl cid)]"
| "status_history tbl cid (r # rs) =
     map_option campaign_status (campaign_get tbl cid) # status_history (request tbl r) cid rs"

text \<open>A list of statuses is a path when each step is an edge or stays in place.\<close>

fun is_path :: "CampaignStatus option list \<Rightarrow> bool" where
  "is_path (Some a # Some b # rest) =
     ((a = b \<or> (a, b) \<in> spec_transition_graph) \<and> is_path (Some b # rest))"
| "is_path (a # b # rest) = (a = b \<and> is_path (b # rest))"
| "is_path _ = True"

section \<open>Job queue\<close>

datatype JobStatus = PENDING | RUNNING | COMPLETED | FAILED | CANCELLED

datatype JobType = PROPOSE | BENCHMARK | EXPORT | IMPORT

text \<open>A JSON object (\<open>params\<close>, \<open>result\<close>) is kept as its list of key/value pairs.\<close>

type_synonym json_dict = "(string \<times> string) list"

record Job =
  job_id :: uuid
  job_campaign_id :: "uuid option"
  job_type :: JobType
  job_status :: JobStatus
  job_params :: json_dict
  job_result :: "json_dict option"
  job_error :: "string option"
  job_progress :: "real option"
  job_started_at :: "datetime option"
  job_completed_at :: "datetime option"
  job_created_at :: datetime
  job_updated_at :: "datetime option"

text \<open>\<open>JobQueue.get\<close> and \<open>JobQueue.get_or_raise\<close>.\<close>

definition job_get :: "Job list \<Rightarrow> uuid \<Rightarrow> Job option" where
  "job_get tbl jid = find (\<lambda>j. job_id j = jid) tbl"

definition job_get_or_raise :: "Job list \<Rightarrow> uuid \<Rightarrow> error + Job" where
  "job_get_or_raise tbl jid =
     (case job_get tbl jid of None \<Rightarrow> Inl JobNotFoundError | Some j \<Rightarrow> Inr j)"

text \<open>\<open>session.add(job); session.flush()\<close> for a row that is already stored.\<close>

definition job_store :: "Job list \<Rightarrow> Job \<Rightarrow> Job list" where
  "job_store tbl j = map (\<lambda>r. if job_id r = job_id j then j else r) tbl"

text \<open>
  \<open>JobQueue.complete\<close>. The two calls of \<open>datetime.utcnow()\<close> are the arguments
  \<open>t_completed\<close> and \<open>t_updated\<close>.
\<close>

definition complete ::
  "Job list \<Rightarrow> uuid \<Rightarrow> json_dict option \<Rightarrow> datetime \<Rightarrow> datetime \<Rightarrow> error + (Job \<times> Job list)" where
  "complete tbl jid result t_completed t_updated =
     (case job_get_or_raise tbl jid of
        Inl e \<Rightarrow> Inl e
      | Inr job \<Rightarrow>
          let job' = job\<lparr>job_status := COMPLETED,
                          job_result := result,
                          job_completed_at := Some t_completed,
                          job_updated_at := Some t_updated,
                          job_progress := Some 1\<rparr>
          in Inr (job', job_store tbl job'))"

text \<open>\<open>JobQueue.fail\<close>.\<close>

definition fail ::
  "Job list \<Rightarrow> uuid \<Rightarrow> string \<Rightarrow> datetime \<Rightarrow> datetime \<Rightarrow> error + (Job \<times> Job list)" where
  "fail tbl jid err t_completed t_updated =
     (case job_get_or_raise tbl jid of
        Inl e \<Rightarrow> Inl e
      | Inr job \<Rightarrow>
          let job' = job\<lparr>job_status := FAILED,
                          job_error := Some err,
                          job_completed_at := Some t_completed,
                          job_updated_at := Some t_updated\<rparr>
          in Inr (job', job_store tbl job'))"

section \<open>Process repository\<close>

record Process =
  process_id :: uuid
  process_name :: string
  process_description :: "string option"
  process_spec_yaml :: string
  process_spec_parsed :: "string \<rightharpoonup> string"
  process_version :: int
  process_is_active :: bool
  process_created_at :: datetime
  process_updated_at :: "datetime option"

text \<open>
  \<open>BaseRepository.create\<close> on the processes table: the INSERT of a new row; a primary
  key that is already stored violates the key constraint.
\<close>

definition process_create :: "Process list \<Rightarrow> Process \<Rightarrow> error + (Process \<times> Process list)" where
  "process_create tbl p =
     (if process_id p \<in> set (map process_id tbl) then Inl IntegrityError
      else Inr (p, tbl @ [p]))"

text \<open>
  \<open>ProcessRepository.create_from_spec\<close>. \<open>name or spec_parsed.get("name", "Unnamed
  Process")\<close>: an absent or empty \<open>name\<close> falls back on the parsed specification.
\<close>

definition create_from_spec ::
  "Process list \<Rightarrow> string \<Rightarrow> (string \<rightharpoonup> string) \<Rightarrow> string option \<Rightarrow> string option
     \<Rightarrow> uuid \<Rightarrow> datetime \<Rightarrow> error + (Process \<times> Process list)" where
  "create_from_spec tbl spec_yaml spec_parsed name description new_id now =
     (let fallback = (case spec_parsed ''name'' of None \<Rightarrow> ''Unnamed Process'' | Some n \<Rightarrow> n);
          process_name' = (case name of None \<Rightarrow> fallback
                           | Some n \<Rightarrow> if n = [] then fallback else n);
          process = \<lparr>process_id = new_id,
                     process_name = process_name',
                     process_description = description,
                     process_spec_yaml = spec_yaml,
                     process_spec_parsed = spec_parsed,
                     process_version = 1,
                     process_is_active = True,
                     process_created_at = now,
                     process_updated_at = None\<rparr>
      in process_create tbl process)"

text \<open>
  \<open>ProcessRepository.list(name=...)\<close> with its defaults \<open>limit=100, offset=0\<close>: the
  rows of that name, newest first. (Rows with equal \<open>created_at\<close> come in no order the
  database promises; the model puts the later-inserted row first.)
\<close>

definition process_list_by_name :: "Process list \<Rightarrow> string \<Rightarrow> Process list" where
  "process_list_by_name tbl name =
     take 100 (rev (sort_key process_created_at (filter (\<lambda>p. process_name p = name) tbl)))"

text \<open>Python's \<open>max\<close> of a sequence of integers; it raises on the empty sequence.\<close>

fun py_max :: "int list \<Rightarrow> error + int" where
  "py_max [] = Inl (ValueError ''max() arg is an empty sequence'')"
| "py_max (x # xs) = Inr (fold max xs x)"

text \<open>
  \<open>ProcessRepository.create_version\<close> of a new object, as the tests build it
  (\<open>Process(name=..., spec_yaml=..., spec_parsed=...)\<close>): every active row of the name
  is deactivated, the object gets the next version number and is stored active.
  \<open>session.add\<close> and \<open>flush\<close> of a new object are an INSERT, so a key that is already
  stored violates the key constraint.
\<close>

definition create_version ::
  "Process list \<Rightarrow> Process \<Rightarrow> datetime \<Rightarrow> error + (Process \<times> Process list)" where
  "create_version tbl process now =
     (let tbl1 = map (\<lambda>old. if process_name old = process_name process \<and> process_is_active old
                             then old\<lparr>process_is_active := False, process_updated_at := Some now\<rparr>
                             else old) tbl
      in case py_max (map process_version (process_list_by_name tbl1 (process_name process))) of
           Inl e \<Rightarrow> Inl e
         | Inr m \<Rightarrow>
             process_create tbl1
               (process\<lparr>process_version := m + 1, process_is_active := True\<rparr>))"

text \<open>
  \<open>ProcessRepository.create_version\<close> of an instance that was loaded from the session.
  Such an instance is a stored row: the table is \<open>pre @ [process] @ post\<close> (attribute
  changes the caller made are flushed to the row before the first query runs). The loop
  deactivates the instance too when it is active, \<open>session.add\<close> of it adds nothing, and
  the flush is an UPDATE of its row in place: no row is inserted.
\<close>

definition create_version_stored ::
  "Process list \<Rightarrow> Process \<Rightarrow> Process list \<Rightarrow> datetime \<Rightarrow> error + (Process \<times> Process list)" where
  "create_version_stored pre process post now =
     (let deactivate = (\<lambda>old. if process_name old = process_name process \<and> process_is_active old
                             then old\<lparr>process_is_active := False, process_updated_at := Some now\<rparr>
                             else old);
          pre1 = map deactivate pre;
          process1 = deactivate process;
          post1 = map deactivate post
      in case py_max (map process_version
                        (process_list_by_name (pre1 @ [process1] @ post1) (process_name process))) of
           Inl e \<Rightarrow> Inl e
         | Inr m \<Rightarrow>
             (let process2 = process1\<lparr>process_version := m + 1, process_is_active := True\<rparr>
              in Inr (process2, pre1 @ [process2] @ post1)))"

text \<open>The number of active versions stored under a name.\<close>

definition active_versions :: "Process list \<Rightarrow> string \<Rightarrow> nat" where
  "active_versions tbl name =
     length (filter (\<lambda>p. process_name p = name \<and> process_is_active p) tbl)"

section \<open>Process specification\<close>

text \<open>
  A raw value is a number or a string; arithmetic is over the reals, so the rounding of
  IEEE doubles and the values NaN and infinity are not part of the model. The theorems on
  \<open>encode\<close> and \<open>decode\<close> therefore assert no result of a normalisation or a
  denormalisation; the lemmas on a second pass of \<open>snap_to_grid\<close> do, and hold in
  exact arithmetic. An input map (\<open>x_raw\<close>, a Python \<open>dict\<close>) is a partial map from
  input names to raw values.
\<close>

datatype val = Num real | Str string

type_synonym raw_map = "string \<rightharpoonup> val"

text \<open>\<open>active_if\<close>: the items of a \<open>Dict[str, List[Any]]\<close>, in insertion order.\<close>

type_synonym active_if_t = "(string \<times> val list) list"

text \<open>
  \<open>InputSpec = Union[ContinuousInput, DiscreteInput, CategoricalInput]\<close>, each with
  its name, its payload (\<open>bounds\<close>, \<open>values\<close>, \<open>categories\<close>) and its optional
  \<open>active_if\<close>.
\<close>

datatype InputSpec =
    ContinuousInput string real real "active_if_t option"
  | DiscreteInput string "real list" "active_if_t option"
  | CategoricalInput string "string list" "active_if_t option"

fun name :: "InputSpec \<Rightarrow> string" where
  "name (ContinuousInput n lo hi a) = n"
| "name (DiscreteInput n vs a) = n"
| "name (CategoricalInput n cs a) = n"

fun active_if :: "InputSpec \<Rightarrow> active_if_t option" where
  "active_if (ContinuousInput n lo hi a) = a"
| "active_if (DiscreteInput n vs a) = a"
| "active_if (CategoricalInput n cs a) = a"

definition is_conditional :: "InputSpec \<Rightarrow> bool" where
  "is_conditional inp = (active_if inp \<noteq> None)"

text \<open>
  \<open>DiscreteInput.bounds\<close>: \<open>(min(self.values), max(self.values))\<close>; Python's \<open>min\<close>
  raises on an empty list (which the validator of \<open>DiscreteInput\<close> rejects).
\<close>

fun bounds :: "real list \<Rightarrow> error + (real \<times> real)" where
  "bounds [] = Inl (ValueError ''min() arg is an empty sequence'')"
| "bounds (v # vs) = Inr (fold min vs v, fold max vs v)"

datatype ObjectiveDirection = MAXIMIZE | MINIMIZE

record ObjectiveSpec =
  objective_name :: string
  direction :: ObjectiveDirection

definition is_maximization :: "ObjectiveSpec \<Rightarrow> bool" where
  "is_maximization obj = (direction obj = MAXIMIZE)"

record ProcessSpec =
  inputs :: "InputSpec list"
  objectives :: "ObjectiveSpec list"

section \<open>Mixed-space encoder\<close>

text \<open>
  The encoder is modelled on a single point: \<open>encode_single\<close> turns one input map into
  the one row of \<open>encode\<close>, \<open>decode_single\<close> turns a one-dimensional array back into
  an input map. \<open>input_info\<close> is a projection of \<open>spec.inputs\<close> field by field, so the
  model reads the inputs themselves.
\<close>

text \<open>The number of content columns of an input, and \<open>n_encoded\<close>.\<close>

fun n_content :: "InputSpec \<Rightarrow> nat" where
  "n_content (ContinuousInput n lo hi a) = 1"
| "n_content (DiscreteInput n vs a) = 1"
| "n_content (CategoricalInput n cs a) = length cs"


definition n_encoded :: "InputSpec list \<Rightarrow> nat" where
  "n_encoded inps = sum_list (map n_content inps) + length (filter is_conditional inps)"

text \<open>
  \<open>_check_activity\<close> on a one-row frame: \<open>df[ref_var]\<close> raises \<open>KeyError\<close> when the
  map has no such key; \<open>isin(values)\<close> is membership in the list.
\<close>

fun check_activity_loop :: "raw_map \<Rightarrow> bool \<Rightarrow> active_if_t \<Rightarrow> error + bool" where
  "check_activity_loop df is_active [] = Inr is_active"
| "check_activity_loop df is_active ((ref_var, values) # rest) =
     (case df ref_var of
        None \<Rightarrow> Inl (KeyError ref_var)
      | Some v \<Rightarrow> check_activity_loop df (is_active \<and> v \<in> set values) rest)"

definition check_activity :: "raw_map \<Rightarrow> active_if_t \<Rightarrow> error + bool" where
  "check_activity df a = check_activity_loop df True a"

text \<open>
  \<open>df[name].values.astype(float)\<close>: \<open>KeyError\<close> for a missing column; a number stays,
  a string goes through Python's \<open>float\<close>, which is the parameter \<open>to_float\<close>
  (\<open>None\<close> where \<open>float\<close> raises \<open>ValueError\<close>).
\<close>

definition column_as_float :: "(string \<Rightarrow> real option) \<Rightarrow> raw_map \<Rightarrow> string \<Rightarrow> error + real" where
  "column_as_float to_float df n =
     (case df n of
        None \<Rightarrow> Inl (KeyError n)
      | Some (Num r) \<Rightarrow> Inr r
      | Some (Str s) \<Rightarrow>
          (case to_float s of
             None \<Rightarrow> Inl (ValueError ''could not convert string to float'')
           | Some r \<Rightarrow> Inr r))"

text \<open>\<open>np.clip(x, 0, 1)\<close>.\<close>

definition clip01 :: "real \<Rightarrow> real" where
  "clip01 x = min (max x 0) 1"

text \<open>\<open>encoded[:, col_idx] = v\<close>: numpy raises \<open>IndexError\<close> beyond the last column.\<close>

definition set_col :: "real list \<Rightarrow> nat \<Rightarrow> real \<Rightarrow> error + real list" where
  "set_col row col_idx v = (if col_idx < length row then Inr (row[col_idx := v]) else Inl IndexError)"

text \<open>The loop over the categories of a categorical input in \<open>encode\<close>.\<close>

fun encode_categories ::
  "raw_map \<Rightarrow> string \<Rightarrow> bool \<Rightarrow> string list \<Rightarrow> real list \<times> nat \<Rightarrow> error + (real list \<times> nat)" where
  "encode_categories df n is_active [] (encoded, col_idx) = Inr (encoded, col_idx)"
| "encode_categories df n is_active (cat # cats) (encoded, col_idx) =
     (case df n of
        None \<Rightarrow> Inl (KeyError n)
      | Some v \<Rightarrow>
          let is_cat = (if v = Str cat then 1 else 0);
              is_cat' = (if is_active then is_cat else 0)
          in case set_col encoded col_idx is_cat' of
               Inl e \<Rightarrow> Inl e
             | Inr encoded' \<Rightarrow> encode_categories df n is_active cats (encoded', col_idx + 1))"

text \<open>The content columns of one input (the \<open>if/elif\<close> chain on \<open>info["type"]\<close>).\<close>

fun encode_content ::
  "(string \<Rightarrow> real option) \<Rightarrow> raw_map \<Rightarrow> bool \<Rightarrow> InputSpec \<Rightarrow> real list \<times> nat
     \<Rightarrow> error + (real list \<times> nat)" where
  "encode_content to_float df is_active (ContinuousInput n lo hi a) (encoded, col_idx) =
     (case column_as_float to_float df n of
        Inl e \<Rightarrow> Inl e
      | Inr v \<Rightarrow>
          let normalized = clip01 ((v - lo) / (hi - lo));
              normalized' = (if is_active then normalized else 0.5)
          in case set_col encoded col_idx normalized' of
               Inl e \<Rightarrow> Inl e
             | Inr encoded' \<Rightarrow> Inr (encoded', col_idx + 1))"
| "encode_content to_float df is_active (DiscreteInput n vs a) (encoded, col_idx) =
     (case bounds vs of
        Inl e \<Rightarrow> Inl e
      | Inr (lo, hi) \<Rightarrow>
          (case column_as_float to_float df n of
             Inl e \<Rightarrow> Inl e
           | Inr v \<Rightarrow>
               let normalized = clip01 ((v - lo) / (hi - lo));
                   normalized' = (if is_active then normalized else 0.5)
               in case set_col encoded col_idx normalized' of
                    Inl e \<Rightarrow> Inl e
                  | Inr encoded' \<Rightarrow> Inr (encoded', col_idx + 1)))"
| "encode_content to_float df is_active (CategoricalInput n cs a) (encoded, col_idx) =
     encode_categories df n is_active cs (encoded, col_idx)"

text \<open>One pass of the loop body of \<open>encode\<close>: activity, content, activity indicator.\<close>

definition encode_input ::
  "(string \<Rightarrow> real option) \<Rightarrow> raw_map \<Rightarrow> InputSpec \<Rightarrow> real list \<times> nat
     \<Rightarrow> error + (real list \<times> nat)" where
  "encode_input to_float df inp st =
     (case (case active_if inp of None \<Rightarrow> Inr True | Some a \<Rightarrow> check_activity df a) of
        Inl e \<Rightarrow> Inl e
      | Inr is_active \<Rightarrow>
          (case encode_content to_float df is_active inp st of
             Inl e \<Rightarrow> Inl e
           | Inr (encoded, col_idx) \<Rightarrow>
               if is_conditional inp then
                 (case set_col encoded col_idx (if is_active then 1 else 0) of
                    Inl e \<Rightarrow> Inl e
                  | Inr encoded' \<Rightarrow> Inr (encoded', col_idx + 1))
               else Inr (encoded, col_idx)))"

fun encode_loop ::
  "(string \<Rightarrow> real option) \<Rightarrow> raw_map \<Rightarrow> InputSpec list \<Rightarrow> real list \<times> nat
     \<Rightarrow> error + (real list \<times> nat)" where
  "encode_loop to_float df [] st = Inr st"
| "encode_loop to_float df (inp # rest) st =
     (case encode_input to_float df inp st of
        Inl e \<Rightarrow> Inl e
      | Inr st' \<Rightarrow> encode_loop to_float df rest st')"

text \<open>
  \<open>encode_single\<close>: \<open>encode\<close> of the one-row frame \<open>pd.DataFrame([x])\<close>, flattened.
  The row starts as \<open>np.zeros(n_encoded)\<close>.
\<close>

definition encode_single ::
  "(string \<Rightarrow> real option) \<Rightarrow> ProcessSpec \<Rightarrow> raw_map \<Rightarrow> error + real list" where
  "encode_single to_float spec x =
     (case encode_loop to_float x (inputs spec) (replicate (n_encoded (inputs spec)) 0, 0) of
        Inl e \<Rightarrow> Inl e
      | Inr (encoded, col_idx) \<Rightarrow> Inr encoded)"

text \<open>
  \<open>np.argmin\<close> and \<open>np.argmax\<close> of a non-empty sequence: the index of the first
  smallest (largest) element. The loops carry the best index and value so far.
\<close>

fun argmin_loop :: "nat \<Rightarrow> real \<Rightarrow> nat \<Rightarrow> real list \<Rightarrow> nat" where
  "argmin_loop best bv i [] = best"
| "argmin_loop best bv i (x # xs) =
     (if x < bv then argmin_loop i x (Suc i) xs else argmin_loop best bv (Suc i) xs)"

fun argmax_loop :: "nat \<Rightarrow> real \<Rightarrow> nat \<Rightarrow> real list \<Rightarrow> nat" where
  "argmax_loop best bv i [] = best"
| "argmax_loop best bv i (x # xs) =
     (if bv < x then argmax_loop i x (Suc i) xs else argmax_loop best bv (Suc i) xs)"

fun argmin :: "real list \<Rightarrow> error + nat" where
  "argmin [] = Inl (ValueError ''attempt to get an argmin of an empty sequence'')"
| "argmin (x # xs) = Inr (argmin_loop 0 x 1 xs)"

fun argmax :: "real list \<Rightarrow> error + nat" where
  "argmax [] = Inl (ValueError ''attempt to get an argmax of an empty sequence'')"
| "argmax (x # xs) = Inr (argmax_loop 0 x 1 xs)"

text \<open>\<open>grid[np.argmin(np.abs(grid - v))]\<close>: the nearest grid value, the first on a tie.\<close>

definition snap :: "real list \<Rightarrow> real \<Rightarrow> error + real" where
  "snap grid v =
     (case argmin (map (\<lambda>g. \<bar>g - v\<bar>) grid) of
        Inl e \<Rightarrow> Inl e
      | Inr idx \<Rightarrow> Inr (grid ! idx))"





text \<open>
  Activity of an input under an input map: all its \<open>active_if\<close> predicates hold
  (\<open>_check_activity\<close>); an input without \<open>active_if\<close> is active.
\<close>

definition activity :: "raw_map \<Rightarrow> InputSpec \<Rightarrow> error + bool" where
  "activity m inp = (case active_if inp of None \<Rightarrow> Inr True | Some a \<Rightarrow> check_activity m a)"

subsection \<open>Snap to grid\<close>

text \<open>
  A numpy array of dimension 0, 1 or 2. \<open>Array2 d rows\<close> has shape
  \<open>(length rows, d)\<close>; every row has \<open>d\<close> elements.
\<close>

datatype ndarray = Array0 real | Array1 "real list" | Array2 nat "real list list"

text \<open>
  \<open>result.squeeze()\<close> of an array with one row drops every axis of length one: a
  \<open>1 \<times> 1\<close> array becomes zero-dimensional, any other single row one-dimensional.
\<close>

definition squeeze_row :: "nat \<Rightarrow> real list \<Rightarrow> ndarray" where
  "squeeze_row d row = (if d = 1 then Array0 (row ! 0) else Array1 row)"

text \<open>
  The discrete branch on one row: denormalise, snap, renormalise, write back.
\<close>

definition snap_discrete_row :: "real list \<Rightarrow> real \<Rightarrow> real \<Rightarrow> nat \<Rightarrow> real list \<Rightarrow> error + real list" where
  "snap_discrete_row grid lo hi col_idx row =
     (case snap grid (row ! col_idx * (hi - lo) + lo) of
        Inl e \<Rightarrow> Inl e
      | Inr g \<Rightarrow> Inr (row[col_idx := (g - lo) / (hi - lo)]))"

text \<open>
  The categorical branch on one row: the view \<open>one_hot\<close> of width \<open>w\<close> is zeroed and
  its argmax column set to one.
\<close>

definition harden_row :: "nat \<Rightarrow> nat \<Rightarrow> real list \<Rightarrow> error + real list" where
  "harden_row col_idx w row =
     (case argmax (take w (drop col_idx row)) of
        Inl e \<Rightarrow> Inl e
      | Inr idx \<Rightarrow> Inr (take col_idx row @ (replicate w 0)[idx := 1] @ drop (col_idx + w) row))"

text \<open>Applying a row operation to every row; the first error wins.\<close>

fun map_rows :: "(real list \<Rightarrow> error + real list) \<Rightarrow> real list list \<Rightarrow> error + real list list" where
  "map_rows f [] = Inr []"
| "map_rows f (r # rs) =
     (case f r of
        Inl e \<Rightarrow> Inl e
      | Inr r' \<Rightarrow> (case map_rows f rs of Inl e \<Rightarrow> Inl e | Inr rs' \<Rightarrow> Inr (r' # rs')))"

text \<open>
  One pass of the loop body of \<open>snap_to_grid\<close> on a two-dimensional array with \<open>d\<close>
  columns. A column index beyond \<open>d\<close> raises \<open>IndexError\<close>; a category slice of width
  zero makes \<open>np.argmax\<close> raise.
\<close>

fun snap_content :: "InputSpec \<Rightarrow> nat \<Rightarrow> real list list \<Rightarrow> nat \<Rightarrow> error + (real list list \<times> nat)" where
  "snap_content (DiscreteInput n vs a) d rows col_idx =
     (case bounds vs of
        Inl e \<Rightarrow> Inl e
      | Inr (lo, hi) \<Rightarrow>
          if d \<le> col_idx then Inl IndexError
          else (case map_rows (snap_discrete_row vs lo hi col_idx) rows of
                  Inl e \<Rightarrow> Inl e
                | Inr rows' \<Rightarrow> Inr (rows', col_idx + 1)))"
| "snap_content (ContinuousInput n lo hi a) d rows col_idx = Inr (rows, col_idx + 1)"
| "snap_content (CategoricalInput n cs a) d rows col_idx =
     (let n_cats = length cs;
          w = min n_cats (d - col_idx)
      in if w = 0 then Inl (ValueError ''attempt to get an argmax of an empty sequence'')
         else (case map_rows (harden_row col_idx w) rows of
                 Inl e \<Rightarrow> Inl e
               | Inr rows' \<Rightarrow> Inr (rows', col_idx + n_cats)))"

fun snap_loop :: "InputSpec list \<Rightarrow> nat \<Rightarrow> real list list \<Rightarrow> nat \<Rightarrow> error + real list list" where
  "snap_loop [] d rows col_idx = Inr rows"
| "snap_loop (inp # rest) d rows col_idx =
     (case snap_content inp d rows col_idx of
        Inl e \<Rightarrow> Inl e
      | Inr (rows', col_idx') \<Rightarrow>
          snap_loop rest d rows' (if is_conditional inp then col_idx' + 1 else col_idx'))"

text \<open>
  \<open>snap_to_grid\<close>. A one-dimensional array is reshaped to one row. A zero-dimensional
  array is not reshaped (its \<open>ndim\<close> is 0, not 1): indexing it by column raises
  \<open>IndexError\<close>, and so does \<open>result.shape[0]\<close> after the loop. The result with exactly
  one row is squeezed.
\<close>

definition snap_2d :: "ProcessSpec \<Rightarrow> nat \<Rightarrow> real list list \<Rightarrow> error + ndarray" where
  "snap_2d spec d rows =
     (case snap_loop (inputs spec) d rows 0 of
        Inl e \<Rightarrow> Inl e
      | Inr result \<Rightarrow>
          Inr (if length result = 1 then squeeze_row d (result ! 0) else Array2 d result))"

fun snap_to_grid :: "ProcessSpec \<Rightarrow> ndarray \<Rightarrow> error + ndarray" where
  "snap_to_grid spec (Array0 x) = Inl IndexError"
| "snap_to_grid spec (Array1 xs) = snap_2d spec (length xs) [xs]"
| "snap_to_grid spec (Array2 d rows) = snap_2d spec d rows"

section \<open>Strategy executor: the reference point\<close>

text \<open>
  A two-dimensional tensor is kept as the list of its columns, since the executor works
  column by column (\<open>Y[:, i]\<close>, \<open>min(dim=0)\<close>, \<open>std(dim=0)\<close>): \<open>Y\<close> of shape
  \<open>n \<times> p\<close> is a list of \<open>p\<close> columns of \<open>n\<close> numbers.

  The sign flip of \<open>execute_optimization\<close>:
  \<open>for i, obj in enumerate(objectives): if not obj.is_maximization: Y[:, i] = -Y[:, i]\<close>;
  a column index beyond the tensor raises \<open>IndexError\<close>.
\<close>

fun flip_signs :: "ObjectiveSpec list \<Rightarrow> nat \<Rightarrow> real list list \<Rightarrow> error + real list list" where
  "flip_signs [] i Y_transformed = Inr Y_transformed"
| "flip_signs (obj # rest) i Y_transformed =
     (if \<not> is_maximization obj then
        (if i < length Y_transformed
         then flip_signs rest (i + 1) (Y_transformed[i := map uminus (Y_transformed ! i)])
         else Inl IndexError)
      else flip_signs rest (i + 1) Y_transformed)"

text \<open>
  \<open>Y_transformed.min(dim=0).values\<close>: the minimum of each column; torch raises on an
  empty column (modelled as \<open>ValueError\<close>).
\<close>

fun column_min :: "real list \<Rightarrow> error + real" where
  "column_min [] = Inl (ValueError ''min(): expected reduction dim to have non-zero size'')"
| "column_min (x # xs) = Inr (fold min xs x)"

fun column_mins :: "real list list \<Rightarrow> error + real list" where
  "column_mins [] = Inr []"
| "column_mins (c # cs) =
     (case column_min c of
        Inl e \<Rightarrow> Inl e
      | Inr m \<Rightarrow> (case column_mins cs of Inl e \<Rightarrow> Inl e | Inr ms \<Rightarrow> Inr (m # ms)))"

text \<open>
  The reference point that \<open>execute_optimization\<close> hands to \<open>acq_plugin.build\<close>.
  \<open>torch.Tensor.std\<close> of one column is the parameter \<open>std\<close>. The surrogate fit
  between the sign flip and this computation is a plugin call and is left out.
\<close>

definition reference_point ::
  "(real list \<Rightarrow> real) \<Rightarrow> ObjectiveSpec list \<Rightarrow> real list list \<Rightarrow> real list option
     \<Rightarrow> error + real list" where
  "reference_point std objs Y ref_point =
     (case flip_signs objs 0 Y of
        Inl e \<Rightarrow> Inl e
      | Inr Y_transformed \<Rightarrow>
          (case ref_point of
             None \<Rightarrow>
               (case column_mins Y_transformed of
                  Inl e \<Rightarrow> Inl e
                | Inr mins \<Rightarrow> Inr (map2 (\<lambda>m c. m - 0.1 * std c) mins Y_transformed))
           | Some r \<Rightarrow> Inr r))"

text \<open>
  The sign flip the specification asks for on a reference point: entry \<open>i\<close> negated
  when objective \<open>i\<close> is a minimisation (as \<open>CampaignAnalyzer._compute_hypervolume\<close>
  does with its reference point).
\<close>

fun flip_ref :: "ObjectiveSpec list \<Rightarrow> real list \<Rightarrow> real list" where
  "flip_ref (obj # rest) (r # rs) = (if is_maximization obj then r else - r) # flip_ref rest rs"
| "flip_ref objs rs = rs"

section \<open>Proposal ledger\<close>

record Iteration =
  iteration_id :: uuid
  iteration_campaign_id :: uuid
  iteration_index :: int

record Proposal =
  proposal_id :: uuid
  proposal_iteration_id :: uuid
  strategy_name :: string
  candidates_raw :: "raw_map list"

text \<open>An element of \<open>accepted\<close>: \<open>{proposal_id, candidate_indices}\<close>.\<close>

type_synonym accepted_t = "(uuid \<times> int list) list"

record Decision =
  decision_id :: uuid
  decision_iteration_id :: uuid
  accepted :: accepted_t
  decision_notes :: "string option"

record Observation =
  observation_id :: uuid
  observation_campaign_id :: uuid
  x_raw :: raw_map
  x_encoded :: "real list option"
  y :: raw_map
  source :: string
  observed_at :: datetime

text \<open>The tables the ledger reads and writes through its session.\<close>

record Session =
  proposals :: "Proposal list"
  decisions :: "Decision list"
  observations :: "Observation list"

text \<open>\<open>DecisionRepository.get_by_iteration\<close>: the first decision of the iteration.\<close>

definition get_by_iteration :: "Decision list \<Rightarrow> uuid \<Rightarrow> Decision option" where
  "get_by_iteration tbl iid = find (\<lambda>d. decision_iteration_id d = iid) tbl"

text \<open>
  \<open>ProposalLedger.record_decision\<close>. The decision gets the fresh primary key
  \<open>new_id\<close>; the INSERT fails on a key that is already stored. Nothing is written
  before either failure.
\<close>

definition record_decision ::
  "Session \<Rightarrow> Iteration \<Rightarrow> accepted_t \<Rightarrow> string option \<Rightarrow> uuid \<Rightarrow> error + (Decision \<times> Session)" where
  "record_decision s iteration acc nts new_id =
     (case get_by_iteration (decisions s) (iteration_id iteration) of
        Some existing \<Rightarrow>
          Inl (ValueError (''Decision already exists for iteration '' @ str_int (iteration_index iteration)))
      | None \<Rightarrow>
          let decision = \<lparr>decision_id = new_id,
                          decision_iteration_id = iteration_id iteration,
                          accepted = acc,
                          decision_notes = nts\<rparr>
          in if new_id \<in> set (map decision_id (decisions s)) then Inl IntegrityError
             else Inr (decision, s\<lparr>decisions := decisions s @ [decision]\<rparr>))"

text \<open>
  The session after a call of \<open>record_decision\<close>: a call that raises has written
  nothing and leaves the session as it was.
\<close>

definition after_record_decision ::
  "Session \<Rightarrow> Iteration \<Rightarrow> accepted_t \<Rightarrow> string option \<Rightarrow> uuid \<Rightarrow> Session" where
  "after_record_decision s iteration acc nts new_id =
     (case record_decision s iteration acc nts new_id of
        Inl e \<Rightarrow> s
      | Inr (decision, s') \<Rightarrow> s')"

text \<open>The number of decisions stored for an iteration.\<close>

definition decision_count :: "Session \<Rightarrow> uuid \<Rightarrow> nat" where
  "decision_count s iid = length (filter (\<lambda>d. decision_iteration_id d = iid) (decisions s))"

text \<open>\<open>session.get(Proposal, id)\<close>.\<close>

definition proposal_get :: "Proposal list \<Rightarrow> uuid \<Rightarrow> Proposal option" where
  "proposal_get tbl pid = find (\<lambda>p. proposal_id p = pid) tbl"

text \<open>
  A candidate index is in range of a proposal's raw list (what the specification asks
  the ledger to check): \<open>0 \<le> i < len(candidates_raw)\<close>.
\<close>

definition indices_in_range :: "Proposal list \<Rightarrow> accepted_t \<Rightarrow> bool" where
  "indices_in_range tbl acc =
     list_all (\<lambda>(pid, idxs).
        case proposal_get tbl pid of
          None \<Rightarrow> False
        | Some p \<Rightarrow> list_all (\<lambda>i. 0 \<le> i \<and> i < int (length (candidates_raw p))) idxs) acc"

text \<open>
  \<open>ProposalLedger.add_observation\<close>, for the campaign with key \<open>cid\<close>. \<open>observed_at
  or datetime.now()\<close> is the argument \<open>obs_at\<close>.
\<close>

definition ledger_add_observation ::
  "Session \<Rightarrow> uuid \<Rightarrow> raw_map \<Rightarrow> raw_map \<Rightarrow> real list option \<Rightarrow> string \<Rightarrow> datetime \<Rightarrow> uuid
     \<Rightarrow> error + (Observation \<times> Session)" where
  "ledger_add_observation s cid xr yv xe src obs_at new_id =
     (let observation = \<lparr>observation_id = new_id,
                          observation_campaign_id = cid,
                          x_raw = xr,
                          x_encoded = xe,
                          y = yv,
                          source = src,
                          observed_at = obs_at\<rparr>
      in if new_id \<in> set (map observation_id (observations s)) then Inl IntegrityError
         else Inr (observation, s\<lparr>observations := observations s @ [observation]\<rparr>))"

section \<open>Campaign engine\<close>

text \<open>
  \<open>CampaignEngine.add_observation\<close>: encode first, then hand over to the ledger.
\<close>

definition engine_add_observation ::
  "(string \<Rightarrow> real option) \<Rightarrow> ProcessSpec \<Rightarrow> Session \<Rightarrow> uuid \<Rightarrow> raw_map \<Rightarrow> raw_map \<Rightarrow> string
     \<Rightarrow> datetime \<Rightarrow> uuid \<Rightarrow> error + (Observation \<times> Session)" where
  "engine_add_observation to_float spec s cid xr yv src obs_at new_id =
     (case encode_single to_float spec xr of
        Inl e \<Rightarrow> Inl e
      | Inr x_enc \<Rightarrow> ledger_add_observation s cid xr yv (Some x_enc) src obs_at new_id)"

text \<open>
  The coverage conditions of the specification on an observation: \<open>x_raw\<close> has a key
  for every input that is active under \<open>x_raw\<close>, and \<open>y\<close> has a key for every
  objective.
\<close>

definition covers_active_inputs :: "ProcessSpec \<Rightarrow> raw_map \<Rightarrow> bool" where
  "covers_active_inputs spec xr =
     list_all (\<lambda>inp. activity xr inp = Inr True \<longrightarrow> xr (name inp) \<noteq> None) (inputs spec)"

definition covers_objectives :: "ProcessSpec \<Rightarrow> raw_map \<Rightarrow> bool" where
  "covers_objectives spec yv = list_all (\<lambda>obj. yv (objective_name obj) \<noteq> None) (objectives spec)"

section \<open>Validators of the specification models\<close>

text \<open>
  The checks the model classes run when a specification is built:
  \<open>ContinuousInput.validate_bounds\<close> (\<open>lo < hi\<close>),
  \<open>DiscreteInput.validate_values_or_range\<close> (values not empty) and
  \<open>CategoricalInput.validate_categories\<close> (at least two categories, all different).
\<close>

fun validate_input :: "InputSpec \<Rightarrow> bool" where
  "validate_input (ContinuousInput n lo hi a) = (lo < hi)"
| "validate_input (DiscreteInput n vs a) = (vs \<noteq> [])"
| "validate_input (CategoricalInput n cs a) = (2 \<le> length cs \<and> distinct cs)"










section \<open>The encoded layout\<close>






section \<open>Example data\<close>

text \<open>Concrete rows and tables at which the theorems below are evaluated.\<close>

definition pending_job :: Job where
  "pending_job = \<lparr>job_id = 1, job_campaign_id = None, job_type = PROPOSE, job_status = PENDING,
     job_params = [], job_result = None, job_error = None, job_progress = None,
     job_started_at = None, job_completed_at = None, job_created_at = 3, job_updated_at = None\<rparr>"

definition example_session :: Session where
  "example_session = \<lparr>proposals = [\<lparr>proposal_id = 10, proposal_iteration_id = 1,
        strategy_name = ''default'', candidates_raw = [[''x'' \<mapsto> Num 0.5]]\<rparr>],
      decisions = [], observations = []\<rparr>"

definition example_iteration :: Iteration where
  "example_iteration = \<lparr>iteration_id = 1, iteration_campaign_id = 7, iteration_index = 0\<rparr>"

text \<open>
  A session that holds a decision for the iteration with key 2 and none for the
  iteration with key 1.
\<close>

definition other_decision_session :: Session where
  "other_decision_session =
     example_session\<lparr>decisions := [\<lparr>decision_id = 8, decision_iteration_id = 2,
        accepted = [], decision_notes = None\<rparr>]\<rparr>"

text \<open>
  Scenario S3 of the specification: a categorical \<open>additive\<close> and a continuous
  \<open>concentration\<close> that is active for two of the additives; one objective.
\<close>

definition additive_spec :: ProcessSpec where
  "additive_spec =
     \<lparr>inputs = [CategoricalInput ''additive'' [''none'', ''MACl'', ''FAI''] None,
                ContinuousInput ''concentration'' (1/100) (1/2)
                  (Some [(''additive'', [Str ''MACl'', Str ''FAI''])])],
      objectives = [\<lparr>objective_name = ''y'', direction = MAXIMIZE\<rparr>]\<rparr>"

text \<open>Python's \<open>float\<close> on strings that are not numerals.\<close>

definition no_float :: "string \<Rightarrow> real option" where
  "no_float s = None"



text \<open>A specification with a single continuous input, as in scenario S1.\<close>

definition single_spec :: ProcessSpec where
  "single_spec =
     \<lparr>inputs = [ContinuousInput ''x'' 0 10 None],
      objectives = [\<lparr>objective_name = ''y'', direction = MAXIMIZE\<rparr>]\<rparr>"



section \<open>Campaign status transitions\<close>

lemma campaign_get_id: "campaign_get tbl cid = Some c \<Longrightarrow> campaign_id c = cid"
  unfolding campaign_get_def by (induction tbl) (auto split: if_splits)

lemma campaign_get_map_update:
  "campaign_id c' = k \<Longrightarrow>
   campaign_get (map (\<lambda>r. if campaign_id r = k then c' else r) tbl) cid =
     (case campaign_get tbl cid of None \<Rightarrow> None
      | Some c \<Rightarrow> Some (if cid = k then c' else c))"
  unfolding campaign_get_def by (induction tbl) auto

lemma graph_iff_table: "(a, b) \<in> spec_transition_graph \<longleftrightarrow> b \<in> VALID_TRANSITIONS a"
  by (cases a; cases b; simp add: spec_transition_graph_def)

lemma update_status_eq:
  "campaign_get tbl cid = Some c \<Longrightarrow>
   update_status tbl cid s now =
     (if (campaign_status c, s) \<in> spec_transition_graph
      then Inr (campaign_update tbl (c\<lparr>campaign_status := s\<rparr>) now)
      else Inl InvalidStateTransitionError)"
  by (simp add: update_status_def campaign_get_or_raise_def graph_iff_table)

lemma campaign_get_update:
  "campaign_get (snd (campaign_update tbl c now)) cid =
     (case campaign_get tbl cid of None \<Rightarrow> None
      | Some c0 \<Rightarrow> Some (if cid = campaign_id c then c\<lparr>campaign_updated_at := Some now\<rparr> else c0))"
  by (simp add: campaign_update_def Let_def campaign_get_map_update)

lemma request_eq:
  "campaign_get tbl cid = Some c \<Longrightarrow>
   request tbl (cid, s, now) =
     (if (campaign_status c, s) \<in> spec_transition_graph
      then snd (campaign_update tbl (c\<lparr>campaign_status := s\<rparr>) now) else tbl)"
  by (simp add: request_def update_status_eq split: prod.splits)

lemma request_none: "campaign_get tbl cid = None \<Longrightarrow> request tbl (cid, s, now) = tbl"
  by (simp add: request_def update_status_def campaign_get_or_raise_def)

lemma request_status:
  "map_option campaign_status (campaign_get (request tbl (k, s, now)) cid) =
    (case campaign_get tbl cid of None \<Rightarrow> None
     | Some c \<Rightarrow> Some (if k = cid \<and> (campaign_status c, s) \<in> spec_transition_graph
          then s else campaign_status c))"
proof (cases "campaign_get tbl k")
  case None
  then show ?thesis
    by (auto simp add: request_none split: option.splits)
next
  case (Some c0)
  then show ?thesis
    using campaign_get_id[OF Some]
    by (auto simp add: request_eq[OF Some] campaign_get_update split: option.splits)
qed

lemma is_path_history: "is_path (status_history tbl cid rs)"
proof (induction rs arbitrary: tbl)
  case Nil
  then show ?case by simp
next
  case (Cons r rs)
  obtain k s now where r: "r = (k, s, now)" by (cases r) auto
  let ?t = "request tbl r"
  have tail: "is_path (status_history ?t cid rs)" by (rule Cons.IH)
  have hd: "\<exists>rest. status_history ?t cid rs = map_option campaign_status (campaign_get ?t cid) # rest"
    by (cases rs) auto
  then obtain rest where rest: "status_history ?t cid rs = map_option campaign_status (campaign_get ?t cid) # rest"
    by blast
  show ?case
    using tail request_status[of tbl k s now cid] unfolding r
    by (cases "campaign_get tbl cid") (auto simp add: rest[unfolded r] split: if_splits)
qed

text \<open>
  Claim C6. For a stored campaign, \<open>update_status\<close> succeeds exactly along the edges of
  the transition graph of the specification (CREATED to ACTIVE, ACTIVE to PAUSED or
  COMPLETED, PAUSED to ACTIVE or ARCHIVED, COMPLETED to ARCHIVED; ARCHIVED has no
  successor) and then stores the new status; every other request fails with
  \<open>InvalidStateTransitionError\<close> and leaves the stored campaign as it was. Hence the
  status history of a campaign under any sequence of requests is a path in that graph.
\<close>

theorem update_status_follows_graph:
  assumes "campaign_get tbl cid = Some c"
  shows "update_status tbl cid s now =
          (if (campaign_status c, s) \<in> spec_transition_graph
           then Inr (campaign_update tbl (c\<lparr>campaign_status := s\<rparr>) now)
           else Inl InvalidStateTransitionError)
       \<and> campaign_get (request tbl (cid, s, now)) cid =
          (if (campaign_status c, s) \<in> spec_transition_graph
           then Some (c\<lparr>campaign_status := s, campaign_updated_at := Some now\<rparr>)
           else Some c)
       \<and> (\<forall>rs. is_path (status_history tbl cid rs))"
  using assms campaign_get_id[OF assms]
  by (simp add: update_status_eq request_eq campaign_get_update is_path_history)

text \<open>
  The theorem at a campaign in status CREATED: the request for COMPLETED is refused, the
  request for ACTIVE is carried out.
\<close>

theorem update_status_follows_graph_witness:
  "update_status [\<lparr>campaign_id = 1, campaign_process_id = 2, campaign_name = ''c'',
        campaign_status = CREATED, campaign_updated_at = None\<rparr>] 1 CampaignStatus.COMPLETED 7
     = Inl InvalidStateTransitionError
   \<and> update_status [\<lparr>campaign_id = 1, campaign_process_id = 2, campaign_name = ''c'',
        campaign_status = CREATED, campaign_updated_at = None\<rparr>] 1 ACTIVE 7
     = Inr (\<lparr>campaign_id = 1, campaign_process_id = 2, campaign_name = ''c'',
        campaign_status = ACTIVE, campaign_updated_at = Some 7\<rparr>,
        [\<lparr>campaign_id = 1, campaign_process_id = 2, campaign_name = ''c'',
        campaign_status = ACTIVE, campaign_updated_at = Some 7\<rparr>])"
proof -
  let ?c = "\<lparr>campaign_id = 1, campaign_process_id = 2, campaign_name = ''c'',
        campaign_status = CREATED, campaign_updated_at = None\<rparr>"
  have g: "campaign_get [?c] 1 = Some ?c" by (simp add: campaign_get_def)
  show ?thesis
    using update_status_follows_graph[OF g, of CampaignStatus.COMPLETED 7]
          update_status_follows_graph[OF g, of ACTIVE 7]
    by (simp add: spec_transition_graph_def campaign_update_def Let_def)
qed

section \<open>Job queue: complete and fail\<close>

lemma job_get_id: "job_get tbl jid = Some j \<Longrightarrow> job_id j = jid"
  unfolding job_get_def by (induction tbl) (auto split: if_splits)

lemma job_get_store:
  "job_get tbl jid = Some j \<Longrightarrow> job_id j' = jid \<Longrightarrow> job_get (job_store tbl j') jid = Some j'"
  unfolding job_get_def job_store_def by (induction tbl) (auto split: if_splits)

text \<open>
  Claim C9, amended. \<open>complete\<close> and \<open>fail\<close> apply to every stored job, whatever
  its status (the source has no status check): \<open>complete\<close> sets the status to COMPLETED,
  stores the result, sets \<open>completed_at\<close> and sets \<open>progress\<close> to 1; \<open>fail\<close>
  sets the status to FAILED, stores the error and sets \<open>completed_at\<close>.
\<close>

theorem complete_fail_any_status:
  assumes "job_get tbl jid = Some job"
  shows "complete tbl jid res t1 t2 =
           Inr (job\<lparr>job_status := COMPLETED, job_result := res, job_completed_at := Some t1,
                     job_updated_at := Some t2, job_progress := Some 1\<rparr>,
                job_store tbl (job\<lparr>job_status := COMPLETED, job_result := res,
                     job_completed_at := Some t1, job_updated_at := Some t2, job_progress := Some 1\<rparr>))
       \<and> job_get (job_store tbl (job\<lparr>job_status := COMPLETED, job_result := res,
                     job_completed_at := Some t1, job_updated_at := Some t2, job_progress := Some 1\<rparr>)) jid
           = Some (job\<lparr>job_status := COMPLETED, job_result := res, job_completed_at := Some t1,
                     job_updated_at := Some t2, job_progress := Some 1\<rparr>)
       \<and> fail tbl jid err t1 t2 =
           Inr (job\<lparr>job_status := FAILED, job_error := Some err, job_completed_at := Some t1,
                     job_updated_at := Some t2\<rparr>,
                job_store tbl (job\<lparr>job_status := FAILED, job_error := Some err,
                     job_completed_at := Some t1, job_updated_at := Some t2\<rparr>))
       \<and> job_get (job_store tbl (job\<lparr>job_status := FAILED, job_error := Some err,
                     job_completed_at := Some t1, job_updated_at := Some t2\<rparr>)) jid
           = Some (job\<lparr>job_status := FAILED, job_error := Some err, job_completed_at := Some t1,
                     job_updated_at := Some t2\<rparr>)"
  using assms job_get_id[OF assms]
  by (simp add: complete_def fail_def job_get_or_raise_def job_get_store Let_def)

text \<open>The amended claim at a job that is still PENDING.\<close>

theorem complete_fail_any_status_witness:
  "complete [pending_job] 1 None 5 6 =
     Inr (pending_job\<lparr>job_status := COMPLETED, job_result := None, job_completed_at := Some 5,
            job_updated_at := Some 6, job_progress := Some 1\<rparr>,
          [pending_job\<lparr>job_status := COMPLETED, job_result := None, job_completed_at := Some 5,
            job_updated_at := Some 6, job_progress := Some 1\<rparr>])"
proof -
  have g: "job_get [pending_job] 1 = Some pending_job"
    by (simp add: job_get_def pending_job_def)
  show ?thesis
    using complete_fail_any_status[OF g, of None 5 6]
    by (simp add: job_store_def pending_job_def)
qed

text \<open>
  Claim C9 as stated restricts \<open>complete\<close> and \<open>fail\<close> to RUNNING jobs. A PENDING
  job that was never dequeued is completed, and failed, all the same.
\<close>

theorem complete_only_running_counterexample:
  "job_status pending_job \<noteq> RUNNING
   \<and> complete [pending_job] 1 None 5 6 =
       Inr (pending_job\<lparr>job_status := COMPLETED, job_result := None, job_completed_at := Some 5,
              job_updated_at := Some 6, job_progress := Some 1\<rparr>,
            [pending_job\<lparr>job_status := COMPLETED, job_result := None, job_completed_at := Some 5,
              job_updated_at := Some 6, job_progress := Some 1\<rparr>])
   \<and> fail [pending_job] 1 ''boom'' 5 6 =
       Inr (pending_job\<lparr>job_status := FAILED, job_error := Some ''boom'', job_completed_at := Some 5,
              job_updated_at := Some 6\<rparr>,
            [pending_job\<lparr>job_status := FAILED, job_error := Some ''boom'', job_completed_at := Some 5,
              job_updated_at := Some 6\<rparr>])"
  by (simp add: complete_def fail_def job_get_or_raise_def job_get_def job_store_def pending_job_def Let_def)

section \<open>Proposal ledger: decisions\<close>

lemma get_by_iteration_None_iff:
  "get_by_iteration tbl iid = None \<longleftrightarrow> filter (\<lambda>d. decision_iteration_id d = iid) tbl = []"
  unfolding get_by_iteration_def by (induction tbl) auto

lemma record_decision_Inr:
  "record_decision s it acc nts nid = Inr (d, s') \<Longrightarrow>
     get_by_iteration (decisions s) (iteration_id it) = None
     \<and> d = \<lparr>decision_id = nid, decision_iteration_id = iteration_id it, accepted = acc,
            decision_notes = nts\<rparr>
     \<and> s' = s\<lparr>decisions := decisions s @ [d]\<rparr>"
  by (auto simp add: record_decision_def Let_def split: option.splits if_splits)

lemma decision_count_after:
  assumes "record_decision s it acc nts nid = Inr (d, s')"
  shows "decision_count s' iid = (if iid = iteration_id it then 1 else decision_count s iid)"
  using record_decision_Inr[OF assms]
  by (auto simp add: decision_count_def get_by_iteration_None_iff)

lemma get_by_iteration_Some:
  "get_by_iteration tbl iid = Some d \<Longrightarrow> d \<in> set tbl \<and> decision_iteration_id d = iid"
  unfolding get_by_iteration_def by (induction tbl) (auto split: if_splits)

lemma get_by_iteration_count:
  "(get_by_iteration (decisions s) iid = None) = (decision_count s iid = 0)"
  by (simp add: get_by_iteration_None_iff decision_count_def)

lemma record_decision_refused:
  assumes "0 < decision_count s (iteration_id it)"
  shows "record_decision s it acc nts nid =
           Inl (ValueError (''Decision already exists for iteration '' @ str_int (iteration_index it)))"
proof -
  have "get_by_iteration (decisions s) (iteration_id it) \<noteq> None"
    using assms by (simp add: get_by_iteration_count)
  then show ?thesis by (auto simp add: record_decision_def)
qed

lemma decision_count_after_call:
  "decision_count (after_record_decision s it acc nts nid) iid =
     (if iid = iteration_id it \<and> decision_count s iid = 0 \<and> nid \<notin> set (map decision_id (decisions s))
      then 1 else decision_count s iid)"
proof (cases "record_decision s it acc nts nid")
  case (Inl e)
  then have "decision_count s (iteration_id it) \<noteq> 0 \<or> nid \<in> set (map decision_id (decisions s))"
    by (auto simp add: record_decision_def Let_def get_by_iteration_count[symmetric]
        split: option.splits if_splits)
  then show ?thesis using Inl by (auto simp add: after_record_decision_def)
next
  case (Inr r)
  obtain d s' where r: "r = (d, s')" by (cases r)
  have c: "decision_count s (iteration_id it) = 0" "nid \<notin> set (map decision_id (decisions s))"
    using Inr r
    by (auto simp add: record_decision_def Let_def get_by_iteration_count[symmetric]
        split: option.splits if_splits)
  show ?thesis
    using decision_count_after[of s it acc nts nid d s' iid] Inr r c
    by (auto simp add: after_record_decision_def)
qed

text \<open>
  Claim C3 as stated has the second \<open>record_decision\<close> fail with a
  \<open>DecisionAlreadyExists\<close> error. The source raises Python's built-in \<open>ValueError\<close>
  with the message "Decision already exists for iteration 0"; that class is named after no
  kind of the taxonomy.
\<close>

theorem decision_already_exists_kind_counterexample:
  "record_decision
      (example_session\<lparr>decisions := [\<lparr>decision_id = 3, decision_iteration_id = 1,
               accepted = [], decision_notes = None\<rparr>]\<rparr>) example_iteration [] None 4
     = Inl (ValueError ''Decision already exists for iteration 0'')
   \<and> error_kind (ValueError ''Decision already exists for iteration 0'') \<noteq> Some DecisionAlreadyExists"
  by (simp add: record_decision_def get_by_iteration_def example_iteration_def str_int_def
      str_nat.simps)

text \<open>
  Claim C3, amended. The iteration's decisions are counted in the stored table.
  For an iteration with a stored decision, \<open>record_decision\<close> fails with the
  \<open>ValueError\<close> "Decision already exists for iteration <index>" and the session stays
  as it was. For an iteration with no stored decision (and a fresh key) it stores exactly
  the new decision, after which the iteration has one. The count of every other iteration
  is untouched, so a table with at most one decision per iteration stays so after every
  call.
\<close>

theorem record_decision_one_per_iteration:
  "(0 < decision_count s (iteration_id it) \<longrightarrow>
      record_decision s it acc nts nid =
        Inl (ValueError (''Decision already exists for iteration '' @ str_int (iteration_index it)))
      \<and> after_record_decision s it acc nts nid = s)
   \<and> (decision_count s (iteration_id it) = 0 \<and> nid \<notin> set (map decision_id (decisions s)) \<longrightarrow>
        record_decision s it acc nts nid =
          Inr (\<lparr>decision_id = nid, decision_iteration_id = iteration_id it, accepted = acc,
                 decision_notes = nts\<rparr>,
               s\<lparr>decisions := decisions s @ [\<lparr>decision_id = nid,
                 decision_iteration_id = iteration_id it, accepted = acc, decision_notes = nts\<rparr>]\<rparr>)
        \<and> decision_count (after_record_decision s it acc nts nid) (iteration_id it) = 1)
   \<and> (\<forall>iid. iid \<noteq> iteration_id it \<longrightarrow>
        decision_count (after_record_decision s it acc nts nid) iid = decision_count s iid)
   \<and> ((\<forall>iid. decision_count s iid \<le> 1) \<longrightarrow>
        (\<forall>iid. decision_count (after_record_decision s it acc nts nid) iid \<le> 1))"
proof (intro conjI allI impI)
  assume a: "0 < decision_count s (iteration_id it)"
  show "record_decision s it acc nts nid =
        Inl (ValueError (''Decision already exists for iteration '' @ str_int (iteration_index it)))"
    by (rule record_decision_refused[OF a])
  then show "after_record_decision s it acc nts nid = s"
    by (simp add: after_record_decision_def)
next
  assume a: "decision_count s (iteration_id it) = 0 \<and> nid \<notin> set (map decision_id (decisions s))"
  then have "get_by_iteration (decisions s) (iteration_id it) = None"
    by (simp add: get_by_iteration_count)
  then show "record_decision s it acc nts nid =
          Inr (\<lparr>decision_id = nid, decision_iteration_id = iteration_id it, accepted = acc,
                 decision_notes = nts\<rparr>,
               s\<lparr>decisions := decisions s @ [\<lparr>decision_id = nid,
                 decision_iteration_id = iteration_id it, accepted = acc, decision_notes = nts\<rparr>]\<rparr>)"
    using a by (simp add: record_decision_def Let_def)
  show "decision_count (after_record_decision s it acc nts nid) (iteration_id it) = 1"
    using a by (simp add: decision_count_after_call)
next
  fix iid assume "iid \<noteq> iteration_id it"
  then show "decision_count (after_record_decision s it acc nts nid) iid = decision_count s iid"
    by (simp add: decision_count_after_call)
next
  fix iid assume "\<forall>iid. decision_count s iid \<le> 1"
  then show "decision_count (after_record_decision s it acc nts nid) iid \<le> 1"
    by (simp add: decision_count_after_call)
qed

text \<open>
  The amended claim on a table that holds a decision of another iteration: the first call
  for the iteration with key 1 stores its decision, the second call is refused and changes
  nothing.
\<close>

theorem record_decision_one_per_iteration_witness:
  "decision_count other_decision_session 1 = 0
   \<and> record_decision other_decision_session example_iteration [] None 3 =
       Inr (\<lparr>decision_id = 3, decision_iteration_id = 1, accepted = [], decision_notes = None\<rparr>,
            other_decision_session\<lparr>decisions := [\<lparr>decision_id = 8, decision_iteration_id = 2,
                 accepted = [], decision_notes = None\<rparr>,
               \<lparr>decision_id = 3, decision_iteration_id = 1, accepted = [], decision_notes = None\<rparr>]\<rparr>)
   \<and> record_decision (after_record_decision other_decision_session example_iteration [] None 3)
        example_iteration [] None 4
       = Inl (ValueError ''Decision already exists for iteration 0'')
   \<and> after_record_decision (after_record_decision other_decision_session example_iteration [] None 3)
        example_iteration [] None 4
       = after_record_decision other_decision_session example_iteration [] None 3
   \<and> decision_count (after_record_decision other_decision_session example_iteration [] None 3) 2 = 1
   \<and> (\<forall>iid. decision_count
               (after_record_decision other_decision_session example_iteration [] None 3) iid \<le> 1)"
proof -
  let ?s = "other_decision_session"
  let ?s1 = "after_record_decision ?s example_iteration [] None 3"
  have i: "iteration_id example_iteration = 1" "iteration_index example_iteration = 0"
    by (simp_all add: example_iteration_def)
  have a: "decision_count ?s (iteration_id example_iteration) = 0
           \<and> 3 \<notin> set (map decision_id (decisions ?s))"
    by (simp add: decision_count_def other_decision_session_def example_iteration_def)
  have b: "str_int (iteration_index example_iteration) = ''0''"
    by (simp add: example_iteration_def str_int_def str_nat.simps)
  note first = record_decision_one_per_iteration[of ?s example_iteration "[]" None 3]
  have r1: "record_decision ?s example_iteration [] None 3 =
          Inr (\<lparr>decision_id = 3, decision_iteration_id = iteration_id example_iteration,
                 accepted = [], decision_notes = None\<rparr>,
               ?s\<lparr>decisions := decisions ?s @ [\<lparr>decision_id = 3,
                 decision_iteration_id = iteration_id example_iteration, accepted = [],
                 decision_notes = None\<rparr>]\<rparr>)"
    and c1: "decision_count ?s1 (iteration_id example_iteration) = 1"
    using first a by blast+
  note second = record_decision_one_per_iteration[of ?s1 example_iteration "[]" None 4]
  have r2: "record_decision ?s1 example_iteration [] None 4 =
        Inl (ValueError (''Decision already exists for iteration '' @ str_int (iteration_index example_iteration)))"
    and k2: "after_record_decision ?s1 example_iteration [] None 4 = ?s1"
    using second c1 by simp_all
  have others: "\<forall>iid. iid \<noteq> iteration_id example_iteration \<longrightarrow>
                  decision_count ?s1 iid = decision_count ?s iid"
    using first by blast
  have c2: "decision_count ?s1 2 = 1"
    using others by (simp add: i decision_count_def other_decision_session_def)
  have le: "\<forall>iid. decision_count ?s iid \<le> 1"
    by (simp add: decision_count_def other_decision_session_def)
  have le1: "\<forall>iid. decision_count ?s1 iid \<le> 1"
    using first le by blast
  have calls: "decision_count other_decision_session 1 = 0
     \<and> record_decision other_decision_session example_iteration [] None 3 =
       Inr (\<lparr>decision_id = 3, decision_iteration_id = 1, accepted = [], decision_notes = None\<rparr>,
            other_decision_session\<lparr>decisions := [\<lparr>decision_id = 8, decision_iteration_id = 2,
                 accepted = [], decision_notes = None\<rparr>,
               \<lparr>decision_id = 3, decision_iteration_id = 1, accepted = [], decision_notes = None\<rparr>]\<rparr>)
     \<and> record_decision ?s1 example_iteration [] None 4
         = Inl (ValueError ''Decision already exists for iteration 0'')
     \<and> after_record_decision ?s1 example_iteration [] None 4 = ?s1"
    using a r1 r2 k2 b by (simp add: i other_decision_session_def)
  show ?thesis
    using calls c2 le1 by blast
qed

text \<open>
  Claim C8 as stated has \<open>record_decision\<close> reject candidate indices outside the
  referenced proposal's raw list. The proposal with key 10 has one candidate; the
  accepted entry asks for index 5 and is recorded.
\<close>

theorem record_decision_out_of_range_counterexample:
  "\<not> indices_in_range (proposals example_session) [(10, [5])]
   \<and> record_decision example_session example_iteration [(10, [5])] None 3 =
       Inr (\<lparr>decision_id = 3, decision_iteration_id = 1, accepted = [(10, [5])], decision_notes = None\<rparr>,
            example_session\<lparr>decisions := [\<lparr>decision_id = 3, decision_iteration_id = 1,
               accepted = [(10, [5])], decision_notes = None\<rparr>]\<rparr>)"
  by (simp add: indices_in_range_def proposal_get_def example_session_def example_iteration_def
      record_decision_def get_by_iteration_def Let_def)

text \<open>
  Claim C8, amended. \<open>record_decision\<close> does not look at the proposals: for an
  iteration without a decision it stores the accepted entries exactly as given,
  whatever candidate indices they hold and whatever proposals are stored.
\<close>

theorem record_decision_stores_accepted_verbatim:
  assumes "get_by_iteration (decisions s) (iteration_id it) = None"
      and "nid \<notin> set (map decision_id (decisions s))"
  shows "record_decision s it acc nts nid =
           Inr (\<lparr>decision_id = nid, decision_iteration_id = iteration_id it, accepted = acc,
                  decision_notes = nts\<rparr>,
                s\<lparr>decisions := decisions s @ [\<lparr>decision_id = nid,
                  decision_iteration_id = iteration_id it, accepted = acc, decision_notes = nts\<rparr>]\<rparr>)
         \<and> record_decision (s\<lparr>proposals := ps\<rparr>) it acc nts nid =
           Inr (\<lparr>decision_id = nid, decision_iteration_id = iteration_id it, accepted = acc,
                  decision_notes = nts\<rparr>,
                s\<lparr>proposals := ps, decisions := decisions s @ [\<lparr>decision_id = nid,
                  decision_iteration_id = iteration_id it, accepted = acc, decision_notes = nts\<rparr>]\<rparr>)"
  using assms by (simp add: record_decision_def Let_def)

text \<open>The amended claim at the out-of-range entry above.\<close>

theorem record_decision_stores_accepted_verbatim_witness:
  "record_decision example_session example_iteration [(10, [5])] None 3 =
       Inr (\<lparr>decision_id = 3, decision_iteration_id = 1, accepted = [(10, [5])], decision_notes = None\<rparr>,
            example_session\<lparr>decisions := [\<lparr>decision_id = 3, decision_iteration_id = 1,
               accepted = [(10, [5])], decision_notes = None\<rparr>]\<rparr>)"
proof -
  have a: "get_by_iteration (decisions example_session) (iteration_id example_iteration) = None"
    by (simp add: get_by_iteration_def example_session_def)
  have b: "3 \<notin> set (map decision_id (decisions example_session))"
    by (simp add: example_session_def)
  show ?thesis
    using record_decision_stores_accepted_verbatim[OF a b, of "[(10, [5])]" None "proposals example_session"]
    by (simp add: example_session_def example_iteration_def)
qed

section \<open>Process repository: active versions\<close>

text \<open>
  Claim C7 asks that every repository operation keeps at most one active version per
  process name. \<open>create_from_spec\<close> called twice with the same name stores two rows of
  that name, both with \<open>is_active = True\<close> (and both with version 1).
\<close>

theorem create_from_spec_two_active_versions:
  "create_from_spec [] ''v1'' Map.empty (Some ''p'') None 1 10 =
     Inr (\<lparr>process_id = 1, process_name = ''p'', process_description = None,
            process_spec_yaml = ''v1'', process_spec_parsed = Map.empty, process_version = 1,
            process_is_active = True, process_created_at = 10, process_updated_at = None\<rparr>,
          [\<lparr>process_id = 1, process_name = ''p'', process_description = None,
            process_spec_yaml = ''v1'', process_spec_parsed = Map.empty, process_version = 1,
            process_is_active = True, process_created_at = 10, process_updated_at = None\<rparr>])
   \<and> create_from_spec
        [\<lparr>process_id = 1, process_name = ''p'', process_description = None,
            process_spec_yaml = ''v1'', process_spec_parsed = Map.empty, process_version = 1,
            process_is_active = True, process_created_at = 10, process_updated_at = None\<rparr>]
        ''v2'' Map.empty (Some ''p'') None 2 11 =
     Inr (\<lparr>process_id = 2, process_name = ''p'', process_description = None,
            process_spec_yaml = ''v2'', process_spec_parsed = Map.empty, process_version = 1,
            process_is_active = True, process_created_at = 11, process_updated_at = None\<rparr>,
          [\<lparr>process_id = 1, process_name = ''p'', process_description = None,
            process_spec_yaml = ''v1'', process_spec_parsed = Map.empty, process_version = 1,
            process_is_active = True, process_created_at = 10, process_updated_at = None\<rparr>,
           \<lparr>process_id = 2, process_name = ''p'', process_description = None,
            process_spec_yaml = ''v2'', process_spec_parsed = Map.empty, process_version = 1,
            process_is_active = True, process_created_at = 11, process_updated_at = None\<rparr>])
   \<and> active_versions
          [\<lparr>process_id = 1, process_name = ''p'', process_description = None,
            process_spec_yaml = ''v1'', process_spec_parsed = Map.empty, process_version = 1,
            process_is_active = True, process_created_at = 10, process_updated_at = None\<rparr>,
           \<lparr>process_id = 2, process_name = ''p'', process_description = None,
            process_spec_yaml = ''v2'', process_spec_parsed = Map.empty, process_version = 1,
            process_is_active = True, process_created_at = 11, process_updated_at = None\<rparr>] ''p'' = 2"
  by (simp add: create_from_spec_def process_create_def active_versions_def Let_def)

text \<open>
  \<open>create_version\<close>, in contrast, deactivates the stored versions of the name first:
  after it exactly one version of that name is active and no other name is touched,
  whether the object is new or an instance of a stored row.
\<close>

lemma active_versions_Cons:
  "active_versions (q # t) nm =
     (if process_name q = nm \<and> process_is_active q then 1 else 0) + active_versions t nm"
  by (simp add: active_versions_def)

lemma active_versions_append:
  "active_versions (t @ [q]) nm =
     active_versions t nm + (if process_name q = nm \<and> process_is_active q then 1 else 0)"
  by (simp add: active_versions_def)

lemma active_versions_deactivate:
  "active_versions
     (map (\<lambda>old. if process_name old = n0 \<and> process_is_active old
                  then old\<lparr>process_is_active := False, process_updated_at := Some now\<rparr>
                  else old) tbl) nm
   = (if nm = n0 then 0 else active_versions tbl nm)"
  by (induction tbl) (simp add: active_versions_def, simp add: active_versions_Cons)

lemma create_version_active_versions:
  assumes "create_version tbl p now = Inr (p', tbl')"
  shows "active_versions tbl' nm =
           (if nm = process_name p then 1 else active_versions tbl nm)"
proof -
  let ?tbl1 = "map (\<lambda>old. if process_name old = process_name p \<and> process_is_active old
                             then old\<lparr>process_is_active := False, process_updated_at := Some now\<rparr>
                             else old) tbl"
  obtain m where tbl': "tbl' = ?tbl1 @ [p\<lparr>process_version := m + 1, process_is_active := True\<rparr>]"
    using assms
    by (auto simp add: create_version_def Let_def process_create_def split: sum.splits if_splits)
  show ?thesis
    unfolding tbl' active_versions_append active_versions_deactivate by auto
qed

lemma active_versions_concat:
  "active_versions (t @ u) nm = active_versions t nm + active_versions u nm"
  by (simp add: active_versions_def)

lemma create_version_stored_active_versions:
  assumes "create_version_stored pre p post now = Inr (p', tbl')"
  shows "active_versions tbl' nm =
           (if nm = process_name p then 1 else active_versions (pre @ [p] @ post) nm)"
proof -
  define deactivate :: "Process \<Rightarrow> Process" where
    "deactivate = (\<lambda>old. if process_name old = process_name p \<and> process_is_active old
                             then old\<lparr>process_is_active := False, process_updated_at := Some now\<rparr>
                             else old)"
  obtain m where tbl':
    "tbl' = map deactivate pre @ [(deactivate p)\<lparr>process_version := m + 1, process_is_active := True\<rparr>]
              @ map deactivate post"
    using assms
    by (auto simp add: create_version_stored_def Let_def deactivate_def split: sum.splits)
  have d: "\<And>t. active_versions (map deactivate t) nm
             = (if nm = process_name p then 0 else active_versions t nm)"
    unfolding deactivate_def by (rule active_versions_deactivate)
  have n: "process_name (deactivate p) = process_name p"
    by (simp add: deactivate_def)
  show ?thesis
    unfolding tbl' active_versions_concat d
    by (simp add: active_versions_def n)
qed

section \<open>Strategy executor: the reference point\<close>

text \<open>
  Claim C2 asks that a caller-supplied reference point is negated for each minimise
  objective, as \<open>Y\<close> is. For one minimise objective, \<open>Y = [1, 2]\<close> and the supplied
  reference point \<open>[5]\<close>, the executor negates \<open>Y\<close> but hands \<open>[5]\<close> on unchanged,
  where the sign flip gives \<open>[-5]\<close>.
\<close>

theorem reference_point_not_flipped:
  "reference_point (\<lambda>c. 0) [\<lparr>objective_name = ''y'', direction = MINIMIZE\<rparr>] [[1, 2]] (Some [5]) = Inr [5]
   \<and> flip_signs [\<lparr>objective_name = ''y'', direction = MINIMIZE\<rparr>] 0 [[1, 2]] = Inr [[-1, -2]]
   \<and> flip_ref [\<lparr>objective_name = ''y'', direction = MINIMIZE\<rparr>] [5] = [-5]"
  by (simp add: reference_point_def is_maximization_def)

text \<open>
  Without a supplied reference point the executor computes, per objective, the minimum
  of the sign-flipped column minus 0.1 times its standard deviation.
\<close>

lemma column_mins_length: "column_mins Y = Inr ms \<Longrightarrow> length ms = length Y"
  by (induction Y arbitrary: ms) (auto split: sum.splits)

lemma reference_point_default:
  assumes "flip_signs objs 0 Y = Inr Ys" "column_mins Ys = Inr mins" "j < length Ys"
  shows "\<exists>r. reference_point std objs Y None = Inr r \<and> length r = length Ys
           \<and> r ! j = mins ! j - 0.1 * std (Ys ! j)"
  using assms column_mins_length[OF assms(2)]
  by (simp add: reference_point_def)

section \<open>Encoding requires every declared key\<close>

text \<open>
  A read of \<open>df[name]\<close> for a key the map does not have raises \<open>KeyError\<close>, and every
  input reads its own column, active or not.
\<close>

lemma encode_categories_missing_key:
  "df n = None \<Longrightarrow> 0 < length cs \<Longrightarrow> encode_categories df n is_active cs st = Inl (KeyError n)"
  by (cases cs; cases st) auto

lemma encode_content_missing_key:
  assumes "df (name inp) = None" and "validate_input inp"
  shows "\<exists>e. encode_content to_float df is_active inp st = Inl e"
proof (cases inp)
  case (ContinuousInput n lo hi a)
  then show ?thesis
    using assms by (cases st) (auto simp add: column_as_float_def)
next
  case (DiscreteInput n vs a)
  then show ?thesis
    using assms by (cases st) (auto simp add: column_as_float_def split: sum.splits)
next
  case (CategoricalInput n cs a)
  then have "df n = None" and "0 < length cs"
    using assms by auto
  then show ?thesis
    using CategoricalInput by (cases st) (simp add: encode_categories_missing_key)
qed

lemma encode_input_missing_key:
  assumes "df (name inp) = None" and "validate_input inp"
  shows "\<exists>e. encode_input to_float df inp st = Inl e"
proof (cases "case active_if inp of None \<Rightarrow> Inr True | Some a \<Rightarrow> check_activity df a")
  case (Inl e)
  then show ?thesis by (simp add: encode_input_def)
next
  case (Inr is_active)
  obtain e where "encode_content to_float df is_active inp st = Inl e"
    using encode_content_missing_key[of df inp to_float is_active st] assms by blast
  then show ?thesis by (simp add: encode_input_def Inr)
qed

lemma encode_loop_missing_key:
  assumes "df (name inp) = None" and "validate_input inp"
  shows "inp \<in> set inps \<Longrightarrow> \<exists>e. encode_loop to_float df inps st = Inl e"
proof (induction inps arbitrary: st)
  case Nil
  then show ?case by simp
next
  case (Cons a inps)
  show ?case
  proof (cases "encode_input to_float df a st")
    case (Inl e)
    then show ?thesis by simp
  next
    case (Inr st')
    then have "a \<noteq> inp"
      using encode_input_missing_key[of df inp to_float st] assms by auto
    then have "inp \<in> set inps" using Cons.prems(1) by simp
    from Cons.IH[OF this] show ?thesis by (simp add: Inr)
  qed
qed

lemma encode_single_missing_key:
  "inp \<in> set (inputs spec) \<Longrightarrow> x (name inp) = None \<Longrightarrow> validate_input inp \<Longrightarrow>
   \<exists>e. encode_single to_float spec x = Inl e"
  using encode_loop_missing_key[of x inp "inputs spec" to_float "(replicate (n_encoded (inputs spec)) 0, 0)"]
  by (auto simp add: encode_single_def)

text \<open>
  Claim C10. Encoding is defined only when the input map has a key for every declared
  input: if any declared input's key is missing, inactive inputs included,
  \<open>encode_single\<close> fails (it does not fall back on the neutral value), and so does the
  engine's \<open>add_observation\<close>, with the same error and without storing anything.
  (\<open>validate_input\<close> holds of every input of a constructed specification.)
\<close>

theorem encode_requires_every_declared_key:
  assumes "inp \<in> set (inputs spec)" and "validate_input inp" and "name inp \<notin> dom x"
  shows "\<exists>e. encode_single to_float spec x = Inl e
           \<and> engine_add_observation to_float spec s cid x yv src obs_at new_id = Inl e"
proof -
  have "x (name inp) = None" using assms(3) by (simp add: domIff)
  with encode_single_missing_key[of inp spec x to_float] assms(1,2)
  obtain e where "encode_single to_float spec x = Inl e" by blast
  then show ?thesis by (simp add: engine_add_observation_def)
qed

lemma additive_none_fails:
  "encode_single no_float additive_spec [''additive'' \<mapsto> Str ''none''] = Inl (KeyError ''concentration'')"
  by (simp add: encode_single_def additive_spec_def n_encoded_def is_conditional_def
      encode_input_def set_col_def check_activity_def column_as_float_def)

text \<open>
  With \<open>additive = none\<close> the input \<open>concentration\<close> is inactive; the map without
  its key is refused all the same.
\<close>

theorem encode_requires_every_declared_key_witness:
  "activity [''additive'' \<mapsto> Str ''none''] (ContinuousInput ''concentration'' (1/100) (1/2)
                  (Some [(''additive'', [Str ''MACl'', Str ''FAI''])])) = Inr False
   \<and> encode_single no_float additive_spec [''additive'' \<mapsto> Str ''none''] = Inl (KeyError ''concentration'')
   \<and> engine_add_observation no_float additive_spec example_session 7 [''additive'' \<mapsto> Str ''none'']
        [''y'' \<mapsto> Num 1] ''user'' 5 1 = Inl (KeyError ''concentration'')"
proof -
  let ?c = "ContinuousInput ''concentration'' (1/100) (1/2)
                  (Some [(''additive'', [Str ''MACl'', Str ''FAI''])])"
  let ?x = "[''additive'' \<mapsto> Str ''none'']"
  have a: "?c \<in> set (inputs additive_spec)" by (simp add: additive_spec_def)
  have b: "validate_input ?c" by simp
  have c: "name ?c \<notin> dom ?x" by simp
  have d: "activity ?x ?c = Inr False" by (simp add: activity_def check_activity_def)
  from encode_requires_every_declared_key[OF a b c, of no_float example_session 7 "[''y'' \<mapsto> Num 1]" "''user''" 5 1]
  show ?thesis using d additive_none_fails by auto
qed

section \<open>Adding observations\<close>

text \<open>
  Claim C4 as stated has \<open>add_observation\<close> reject an observation whose \<open>y\<close> lacks an
  objective or whose \<open>x_raw\<close> lacks an active input. The engine stores an observation
  with an empty \<open>y\<close>; the ledger stores one whose \<open>x_raw\<close> and \<open>y\<close> are both empty.
\<close>

theorem add_observation_unvalidated_counterexample:
  "\<not> covers_objectives additive_spec Map.empty
   \<and> engine_add_observation no_float additive_spec example_session 7
        [''additive'' \<mapsto> Str ''none'', ''concentration'' \<mapsto> Num (1/4)] Map.empty ''user'' 5 1
      = Inr (\<lparr>observation_id = 1, observation_campaign_id = 7,
               x_raw = [''additive'' \<mapsto> Str ''none'', ''concentration'' \<mapsto> Num (1/4)],
               x_encoded = Some [1, 0, 0, 1/2, 0], y = Map.empty, source = ''user'', observed_at = 5\<rparr>,
             example_session\<lparr>observations := [\<lparr>observation_id = 1, observation_campaign_id = 7,
               x_raw = [''additive'' \<mapsto> Str ''none'', ''concentration'' \<mapsto> Num (1/4)],
               x_encoded = Some [1, 0, 0, 1/2, 0], y = Map.empty, source = ''user'', observed_at = 5\<rparr>]\<rparr>)
   \<and> \<not> covers_active_inputs additive_spec Map.empty
   \<and> ledger_add_observation example_session 7 Map.empty Map.empty None ''user'' 5 1
      = Inr (\<lparr>observation_id = 1, observation_campaign_id = 7, x_raw = Map.empty,
               x_encoded = None, y = Map.empty, source = ''user'', observed_at = 5\<rparr>,
             example_session\<lparr>observations := [\<lparr>observation_id = 1, observation_campaign_id = 7,
               x_raw = Map.empty, x_encoded = None, y = Map.empty, source = ''user'',
               observed_at = 5\<rparr>]\<rparr>)"
  by (simp add: covers_objectives_def covers_active_inputs_def additive_spec_def activity_def
      check_activity_def engine_add_observation_def ledger_add_observation_def example_session_def
      encode_single_def n_encoded_def is_conditional_def encode_input_def set_col_def
      column_as_float_def clip01_def Let_def)

text \<open>
  Claim C4, amended. The ledger's \<open>add_observation\<close> stores every observation as given,
  without any validation. The engine's \<open>add_observation\<close> encodes \<open>x_raw\<close> first: it
  fails, storing nothing, exactly when the encoding fails, which is the case whenever
  \<open>x_raw\<close> lacks the key of a declared input (active or not); otherwise it stores the
  observation with \<open>x_raw\<close> and \<open>y\<close> as given. \<open>y\<close> is never checked against the
  objectives.
\<close>

theorem add_observation_checks:
  assumes "new_id \<notin> set (map observation_id (observations s))"
  shows "ledger_add_observation s cid xr yv xe src obs_at new_id =
           Inr (\<lparr>observation_id = new_id, observation_campaign_id = cid, x_raw = xr,
                  x_encoded = xe, y = yv, source = src, observed_at = obs_at\<rparr>,
                s\<lparr>observations := observations s @ [\<lparr>observation_id = new_id,
                  observation_campaign_id = cid, x_raw = xr, x_encoded = xe, y = yv,
                  source = src, observed_at = obs_at\<rparr>]\<rparr>)
       \<and> (\<forall>e. encode_single to_float spec xr = Inl e \<longrightarrow>
             engine_add_observation to_float spec s cid xr yv src obs_at new_id = Inl e)
       \<and> (\<forall>enc. encode_single to_float spec xr = Inr enc \<longrightarrow>
             engine_add_observation to_float spec s cid xr yv src obs_at new_id =
               Inr (\<lparr>observation_id = new_id, observation_campaign_id = cid, x_raw = xr,
                      x_encoded = Some enc, y = yv, source = src, observed_at = obs_at\<rparr>,
                    s\<lparr>observations := observations s @ [\<lparr>observation_id = new_id,
                      observation_campaign_id = cid, x_raw = xr, x_encoded = Some enc, y = yv,
                      source = src, observed_at = obs_at\<rparr>]\<rparr>))
       \<and> (\<forall>inp. inp \<in> set (inputs spec) \<and> validate_input inp \<and> name inp \<notin> dom xr \<longrightarrow>
             (\<exists>e. engine_add_observation to_float spec s cid xr yv src obs_at new_id = Inl e))"
proof (intro conjI allI impI)
  fix inp assume a: "inp \<in> set (inputs spec) \<and> validate_input inp \<and> name inp \<notin> dom xr"
  then have "xr (name inp) = None" by (simp add: domIff)
  with a encode_single_missing_key[of inp spec xr to_float]
  obtain e where "encode_single to_float spec xr = Inl e" by blast
  then show "\<exists>e. engine_add_observation to_float spec s cid xr yv src obs_at new_id = Inl e"
    by (simp add: engine_add_observation_def)
qed (use assms in \<open>simp_all add: ledger_add_observation_def engine_add_observation_def Let_def\<close>)

text \<open>The amended claim at an observation without any objective value.\<close>

theorem add_observation_checks_witness:
  "engine_add_observation no_float additive_spec example_session 7
        [''additive'' \<mapsto> Str ''none'', ''concentration'' \<mapsto> Num (1/4)] Map.empty ''user'' 5 1
      = Inr (\<lparr>observation_id = 1, observation_campaign_id = 7,
               x_raw = [''additive'' \<mapsto> Str ''none'', ''concentration'' \<mapsto> Num (1/4)],
               x_encoded = Some [1, 0, 0, 1/2, 0], y = Map.empty, source = ''user'', observed_at = 5\<rparr>,
             example_session\<lparr>observations := [\<lparr>observation_id = 1, observation_campaign_id = 7,
               x_raw = [''additive'' \<mapsto> Str ''none'', ''concentration'' \<mapsto> Num (1/4)],
               x_encoded = Some [1, 0, 0, 1/2, 0], y = Map.empty, source = ''user'', observed_at = 5\<rparr>]\<rparr>)"
proof -
  let ?x = "[''additive'' \<mapsto> Str ''none'', ''concentration'' \<mapsto> Num (1/4)]"
  have fresh: "1 \<notin> set (map observation_id (observations example_session))"
    by (simp add: example_session_def)
  have enc: "encode_single no_float additive_spec ?x = Inr [1, 0, 0, 1/2, 0]"
    by (simp add: encode_single_def additive_spec_def n_encoded_def is_conditional_def
        encode_input_def set_col_def check_activity_def column_as_float_def clip01_def Let_def)
  from add_observation_checks[OF fresh, of 7 ?x Map.empty None "''user''" 5 no_float additive_spec]
  have "\<forall>enc. encode_single no_float additive_spec ?x = Inr enc \<longrightarrow>
             engine_add_observation no_float additive_spec example_session 7 ?x Map.empty ''user'' 5 1 =
               Inr (\<lparr>observation_id = 1, observation_campaign_id = 7, x_raw = ?x,
                      x_encoded = Some enc, y = Map.empty, source = ''user'', observed_at = 5\<rparr>,
                    example_session\<lparr>observations := observations example_session @ [\<lparr>observation_id = 1,
                      observation_campaign_id = 7, x_raw = ?x, x_encoded = Some enc, y = Map.empty,
                      source = ''user'', observed_at = 5\<rparr>]\<rparr>)"
    by blast
  with enc show ?thesis by (simp add: example_session_def)
qed

section \<open>The encoder writes the layout\<close>










section \<open>Decoding the layout\<close>

text \<open>\<open>argmin\<close> and \<open>argmax\<close> return an index of a least (greatest) element.\<close>

lemma argmin_loop_least:
  "length pre = i \<Longrightarrow> best < i \<Longrightarrow> bv = pre ! best \<Longrightarrow> (\<forall>j<i. bv \<le> pre ! j) \<Longrightarrow>
   argmin_loop best bv i xs < i + length xs
   \<and> (\<forall>j < i + length xs. (pre @ xs) ! argmin_loop best bv i xs \<le> (pre @ xs) ! j)"
proof (induction xs arbitrary: pre best bv i)
  case Nil
  then show ?case by simp
next
  case (Cons x xs)
  show ?case
  proof (cases "x < bv")
    case True
    have "argmin_loop i x (Suc i) xs < Suc i + length xs
      \<and> (\<forall>j < Suc i + length xs. ((pre @ [x]) @ xs) ! argmin_loop i x (Suc i) xs \<le> ((pre @ [x]) @ xs) ! j)"
    proof (rule Cons.IH)
      show "length (pre @ [x]) = Suc i" using Cons.prems(1) by simp
      show "i < Suc i" by simp
      show "x = (pre @ [x]) ! i" using Cons.prems(1) by auto
      show "\<forall>j<Suc i. x \<le> (pre @ [x]) ! j"
        using Cons.prems True by (auto simp add: nth_append less_Suc_eq)
    qed
    then show ?thesis using True by simp
  next
    case False
    have "argmin_loop best bv (Suc i) xs < Suc i + length xs
      \<and> (\<forall>j < Suc i + length xs. ((pre @ [x]) @ xs) ! argmin_loop best bv (Suc i) xs \<le> ((pre @ [x]) @ xs) ! j)"
    proof (rule Cons.IH)
      show "length (pre @ [x]) = Suc i" using Cons.prems(1) by simp
      show "best < Suc i" using Cons.prems(2) by simp
      show "bv = (pre @ [x]) ! best" using Cons.prems by (simp add: nth_append)
      show "\<forall>j<Suc i. bv \<le> (pre @ [x]) ! j"
        using Cons.prems False by (auto simp add: nth_append less_Suc_eq)
    qed
    then show ?thesis using False by simp
  qed
qed

lemma argmin_least:
  assumes "xs \<noteq> []"
  shows "\<exists>r. argmin xs = Inr r \<and> r < length xs \<and> (\<forall>j<length xs. xs ! r \<le> xs ! j)"
proof -
  obtain x rest where xs: "xs = x # rest" using assms by (cases xs) auto
  from argmin_loop_least[of "[x]" 1 0 x rest]
  show ?thesis by (simp add: xs)
qed

lemma argmax_loop_greatest:
  "length pre = i \<Longrightarrow> best < i \<Longrightarrow> bv = pre ! best \<Longrightarrow> (\<forall>j<i. pre ! j \<le> bv) \<Longrightarrow>
   argmax_loop best bv i xs < i + length xs
   \<and> (\<forall>j < i + length xs. (pre @ xs) ! j \<le> (pre @ xs) ! argmax_loop best bv i xs)"
proof (induction xs arbitrary: pre best bv i)
  case Nil
  then show ?case by simp
next
  case (Cons x xs)
  show ?case
  proof (cases "bv < x")
    case True
    have "argmax_loop i x (Suc i) xs < Suc i + length xs
      \<and> (\<forall>j < Suc i + length xs. ((pre @ [x]) @ xs) ! j \<le> ((pre @ [x]) @ xs) ! argmax_loop i x (Suc i) xs)"
    proof (rule Cons.IH)
      show "length (pre @ [x]) = Suc i" using Cons.prems(1) by simp
      show "i < Suc i" by simp
      show "x = (pre @ [x]) ! i" using Cons.prems(1) by auto
      show "\<forall>j<Suc i. (pre @ [x]) ! j \<le> x"
        using Cons.prems True by (auto simp add: nth_append less_Suc_eq)
    qed
    then show ?thesis using True by simp
  next
    case False
    have "argmax_loop best bv (Suc i) xs < Suc i + length xs
      \<and> (\<forall>j < Suc i + length xs. ((pre @ [x]) @ xs) ! j \<le> ((pre @ [x]) @ xs) ! argmax_loop best bv (Suc i) xs)"
    proof (rule Cons.IH)
      show "length (pre @ [x]) = Suc i" using Cons.prems(1) by simp
      show "best < Suc i" using Cons.prems(2) by simp
      show "bv = (pre @ [x]) ! best" using Cons.prems by (simp add: nth_append)
      show "\<forall>j<Suc i. (pre @ [x]) ! j \<le> bv"
        using Cons.prems False by (auto simp add: nth_append less_Suc_eq)
    qed
    then show ?thesis using False by simp
  qed
qed

lemma argmax_greatest:
  assumes "xs \<noteq> []"
  shows "\<exists>r. argmax xs = Inr r \<and> r < length xs \<and> (\<forall>j<length xs. xs ! j \<le> xs ! r)"
proof -
  obtain x rest where xs: "xs = x # rest" using assms by (cases xs) auto
  from argmax_loop_greatest[of "[x]" 1 0 x rest]
  show ?thesis by (simp add: xs)
qed

text \<open>Snapping yields a grid value, and a grid value snaps to itself.\<close>

lemma snap_in_grid:
  assumes "vs \<noteq> []"
  shows "\<exists>g. snap vs v = Inr g \<and> g \<in> set vs"
proof -
  have "map (\<lambda>g. \<bar>g - v\<bar>) vs \<noteq> []" using assms by simp
  from argmin_least[OF this] obtain r where
    "argmin (map (\<lambda>g. \<bar>g - v\<bar>) vs) = Inr r" "r < length vs" by auto
  then show ?thesis by (simp add: snap_def)
qed

lemma snap_grid_value:
  assumes "r \<in> set vs"
  shows "snap vs r = Inr r"
proof -
  let ?ds = "map (\<lambda>g. \<bar>g - r\<bar>) vs"
  have ne: "?ds \<noteq> []" using assms by auto
  from argmin_least[OF ne] obtain k where
    k: "argmin ?ds = Inr k" "k < length vs" "\<forall>j<length vs. ?ds ! k \<le> ?ds ! j" by auto
  obtain j where j: "j < length vs" "vs ! j = r"
    using assms by (auto simp add: in_set_conv_nth)
  have "?ds ! k \<le> ?ds ! j" using k(3) j(1) by blast
  then have "\<bar>vs ! k - r\<bar> \<le> 0" using k(2) j by simp
  then have "vs ! k = r" by simp
  then show ?thesis by (simp add: snap_def k(1))
qed

lemma bounds_enclose:
  assumes "bounds vs = Inr (lo, hi)" and "r \<in> set vs"
  shows "lo \<le> r \<and> r \<le> hi"
proof -
  obtain v rest where vs: "vs = v # rest" using assms(1) by (cases vs) auto
  have "fold min rest v = Min (set (v # rest))" "fold max rest v = Max (set (v # rest))"
    by (simp_all only: Min.set_eq_fold Max.set_eq_fold)
  then have "lo = Min (set vs)" "hi = Max (set vs)"
    using assms(1) by (simp_all add: vs)
  then show ?thesis using assms(2) by simp
qed




section \<open>Round trip\<close>













section \<open>Snap to grid\<close>

text \<open>
  A second pass over a snapped row changes nothing: a snapped discrete cell denormalises
  to its grid value, and a hardened group is its own argmax.
\<close>

lemma map_rows_Inr:
  "map_rows f rows = Inr rows1 \<longleftrightarrow>
     length rows1 = length rows \<and> (\<forall>k<length rows. f (rows ! k) = Inr (rows1 ! k))"
proof (induction rows arbitrary: rows1)
  case Nil
  then show ?case by auto
next
  case (Cons r rows)
  show ?case
  proof (cases rows1)
    case Nil
    then show ?thesis by (auto split: sum.splits)
  next
    case (Cons r1 rest1)
    show ?thesis
      using Cons.IH[of rest1]
      by (auto simp add: Cons nth_Cons less_Suc_eq_0_disj split: sum.splits nat.splits)
  qed
qed

lemma renormalise_denormalised:
  "lo \<le> g \<Longrightarrow> g \<le> hi \<Longrightarrow> (g - lo) / (hi - lo) * (hi - lo) + lo = (g::real)"
  by (cases "hi = lo") auto

lemma snap_discrete_row_stable:
  assumes "bounds vs = Inr (lo, hi)" and "i < length row"
      and "snap_discrete_row vs lo hi i row = Inr row1"
      and "take (i + 1) row' = take (i + 1) row1" and "length row' = length row"
  shows "snap_discrete_row vs lo hi i row' = Inr row'"
proof -
  have ne: "vs \<noteq> []" using assms(1) by auto
  obtain g where g: "snap vs (row ! i * (hi - lo) + lo) = Inr g" "g \<in> set vs"
    using snap_in_grid[OF ne] by blast
  have row1: "row1 = row[i := (g - lo) / (hi - lo)]"
    using assms(3) g(1) by (simp add: snap_discrete_row_def)
  have "row' ! i = take (i + 1) row' ! i" by simp
  also have "\<dots> = row1 ! i" using assms(4) by simp
  also have "\<dots> = (g - lo) / (hi - lo)" using row1 assms(2) by simp
  finally have cell: "row' ! i = (g - lo) / (hi - lo)" .
  have "lo \<le> g \<and> g \<le> hi" using bounds_enclose[OF assms(1) g(2)] .
  then have den: "row' ! i * (hi - lo) + lo = g"
    using renormalise_denormalised[of lo g hi] by (simp only: cell)
  have "row'[i := (g - lo) / (hi - lo)] = row'"
    using cell list_update_id[of row' i] by simp
  then show ?thesis
    using snap_grid_value[OF g(2)] by (simp add: snap_discrete_row_def den)
qed

lemma argmax_one_hot:
  assumes "k < w"
  shows "argmax ((replicate w 0)[k := 1]) = Inr k"
proof -
  let ?xs = "(replicate w (0::real))[k := 1]"
  have ne: "?xs \<noteq> []" using assms by auto
  from argmax_greatest[OF ne] obtain r where
    r: "argmax ?xs = Inr r" "r < w" "\<forall>j<w. ?xs ! j \<le> ?xs ! r" by auto
  have "?xs ! k = 1" using assms by simp
  then have "1 \<le> ?xs ! r" using r(3) assms by fastforce
  then have "r = k" using r(2) by (cases "r = k") (simp_all add: nth_list_update)
  then show ?thesis using r(1) by simp
qed

lemma harden_row_stable:
  assumes "harden_row i w row = Inr row1" and "i + w \<le> length row" and "0 < w"
      and "take (i + w) row' = take (i + w) row1" and "length row' = length row"
  shows "harden_row i w row' = Inr row'"
proof -
  have ne: "take w (drop i row) \<noteq> []" using assms(2,3) by auto
  from argmax_greatest[OF ne] obtain k where
    k: "argmax (take w (drop i row)) = Inr k" "k < w" using assms(2) by auto
  define seg where "seg = (replicate w (0::real))[k := 1]"
  have row1: "row1 = take i row @ seg @ drop (i + w) row"
    using assms(1) k(1) by (simp add: harden_row_def seg_def)
  have lseg: "length seg = w" by (simp add: seg_def)
  have "take w (drop i row') = drop i (take (i + w) row')"
    by (simp add: drop_take)
  also have "\<dots> = drop i (take (i + w) row1)" by (simp only: assms(4))
  also have "\<dots> = seg"
    using assms(2) by (simp add: row1 lseg)
  finally have seg': "take w (drop i row') = seg" .
  have "take i row' @ (take w (drop i row') @ drop w (drop i row')) = row'"
    by (simp only: append_take_drop_id)
  then have split: "take i row' @ seg @ drop (i + w) row' = row'"
    by (simp add: seg' add.commute)
  show ?thesis
    using argmax_one_hot[OF k(2)] split
    by (simp add: harden_row_def seg' seg_def)
qed

lemma snap_discrete_row_shape:
  assumes "snap_discrete_row vs lo hi i row = Inr row1"
  shows "length row1 = length row \<and> take i row1 = take i row"
  using assms by (auto simp add: snap_discrete_row_def split: sum.splits)

lemma harden_row_shape:
  assumes "harden_row i w row = Inr row1" and "i + w \<le> length row"
  shows "length row1 = length row \<and> take i row1 = take i row"
  using assms by (auto simp add: harden_row_def split: sum.splits)

text \<open>
  Each input only writes its own columns, so a later pass over the result finds the
  columns of every input as the first pass left them.
\<close>

lemma snap_content_shape:
  assumes "snap_content inp d rows i = Inr (rows1, i1)" and "\<forall>r\<in>set rows. length r = d"
  shows "length rows1 = length rows
       \<and> (\<forall>k<length rows. length (rows1 ! k) = d \<and> take i (rows1 ! k) = take i (rows ! k))
       \<and> i1 = i + n_content inp"
proof (cases inp)
  case (ContinuousInput n lo hi a)
  then show ?thesis using assms by auto
next
  case (DiscreteInput n vs a)
  then obtain lo hi where b: "bounds vs = Inr (lo, hi)" "i < d"
    and m: "map_rows (snap_discrete_row vs lo hi i) rows = Inr rows1" and i1: "i1 = i + 1"
    using assms(1) by (auto split: sum.splits if_splits)
  show ?thesis
    using m assms(2) snap_discrete_row_shape i1 DiscreteInput
    by (auto simp add: map_rows_Inr) 
next
  case (CategoricalInput n cs a)
  define w where "w = min (length cs) (d - i)"
  have w: "0 < w" and m: "map_rows (harden_row i w) rows = Inr rows1" and i1: "i1 = i + length cs"
    using assms(1) CategoricalInput
    by (auto simp add: Let_def w_def split: sum.splits if_splits)
  have le: "i + w \<le> d" using w unfolding w_def by linarith
  show ?thesis
    using m assms(2) harden_row_shape[of i w] i1 CategoricalInput le
    by (auto simp add: map_rows_Inr)
qed

lemma snap_loop_shape:
  assumes "snap_loop inps d rows i = Inr rows'" and "\<forall>r\<in>set rows. length r = d"
  shows "length rows' = length rows
       \<and> (\<forall>k<length rows. length (rows' ! k) = d \<and> take i (rows' ! k) = take i (rows ! k))"
  using assms
proof (induction inps arbitrary: rows i)
  case Nil
  then show ?case by auto
next
  case (Cons inp rest)
  obtain rows1 i1 where c: "snap_content inp d rows i = Inr (rows1, i1)"
    using Cons.prems(1) by (auto split: sum.splits)
  define j where "j = (if is_conditional inp then i1 + 1 else i1)"
  have l: "snap_loop rest d rows1 j = Inr rows'"
    using Cons.prems(1) c by (simp add: j_def)
  note s1 = snap_content_shape[OF c Cons.prems(2)]
  have all1: "\<forall>r\<in>set rows1. length r = d"
    using s1 by (auto simp add: in_set_conv_nth)
  note s2 = Cons.IH[OF l all1]
  have ij: "i \<le> j" using s1 by (simp add: j_def)
  have "take i (rows' ! k) = take i (rows ! k)" if "k < length rows" for k
  proof -
    have "take i (rows' ! k) = take i (take j (rows' ! k))" using ij by (simp add: min_def)
    also have "\<dots> = take i (take j (rows1 ! k))" using s2 s1 that by simp
    also have "\<dots> = take i (rows1 ! k)" using ij by (simp add: min_def)
    finally show ?thesis using s1 that by simp
  qed
  then show ?case using s1 s2 by simp
qed

lemma take_agree_shorter:
  "take j xs = take j ys \<Longrightarrow> i \<le> j \<Longrightarrow> take i xs = take i ys"
  by (metis min.absorb1 take_take)

lemma snap_content_stable:
  assumes "snap_content inp d rows i = Inr (rows1, i1)" and "\<forall>r\<in>set rows. length r = d"
      and "length rows' = length rows"
      and "\<forall>k<length rows. length (rows' ! k) = d \<and> take i1 (rows' ! k) = take i1 (rows1 ! k)"
  shows "snap_content inp d rows' i = Inr (rows', i1)"
proof (cases inp)
  case (ContinuousInput n lo hi a)
  then show ?thesis using assms by auto
next
  case (DiscreteInput n vs a)
  then obtain lo hi where b: "bounds vs = Inr (lo, hi)" "i < d"
    and m: "map_rows (snap_discrete_row vs lo hi i) rows = Inr rows1" and i1: "i1 = i + 1"
    using assms(1) by (auto split: sum.splits if_splits)
  have "snap_discrete_row vs lo hi i (rows' ! k) = Inr (rows' ! k)" if "k < length rows" for k
  proof (rule snap_discrete_row_stable[OF b(1)])
    show "i < length (rows ! k)" using assms(2) that b(2) by simp
    show "snap_discrete_row vs lo hi i (rows ! k) = Inr (rows1 ! k)"
      using m that by (simp add: map_rows_Inr)
    show "take (i + 1) (rows' ! k) = take (i + 1) (rows1 ! k)"
      using assms(4) that i1 by simp
    show "length (rows' ! k) = length (rows ! k)"
      using assms(2,4) that by simp
  qed
  then have "map_rows (snap_discrete_row vs lo hi i) rows' = Inr rows'"
    using assms(3) by (simp add: map_rows_Inr)
  then show ?thesis using DiscreteInput b i1 by simp
next
  case (CategoricalInput n cs a)
  define w where "w = min (length cs) (d - i)"
  have w: "0 < w" and m: "map_rows (harden_row i w) rows = Inr rows1" and i1: "i1 = i + length cs"
    using assms(1) CategoricalInput
    by (auto simp add: Let_def w_def split: sum.splits if_splits)
  have le: "i + w \<le> d" "i + w \<le> i1" using w i1 unfolding w_def by linarith+
  have "harden_row i w (rows' ! k) = Inr (rows' ! k)" if "k < length rows" for k
  proof (rule harden_row_stable[OF _ _ w])
    show "harden_row i w (rows ! k) = Inr (rows1 ! k)"
      using m that by (simp add: map_rows_Inr)
    show "i + w \<le> length (rows ! k)" using assms(2) that le(1) by simp
    show "take (i + w) (rows' ! k) = take (i + w) (rows1 ! k)"
      using assms(4) that le(2) take_agree_shorter by blast
    show "length (rows' ! k) = length (rows ! k)"
      using assms(2,4) that by simp
  qed
  then have "map_rows (harden_row i w) rows' = Inr rows'"
    using assms(3) by (simp add: map_rows_Inr)
  then show ?thesis using CategoricalInput w i1 by (simp add: Let_def w_def)
qed

lemma snap_loop_idempotent:
  assumes "snap_loop inps d rows i = Inr rows'" and "\<forall>r\<in>set rows. length r = d"
  shows "snap_loop inps d rows' i = Inr rows'"
  using assms
proof (induction inps arbitrary: rows i)
  case Nil
  then show ?case by simp
next
  case (Cons inp rest)
  obtain rows1 i1 where c: "snap_content inp d rows i = Inr (rows1, i1)"
    using Cons.prems(1) by (auto split: sum.splits)
  define j where "j = (if is_conditional inp then i1 + 1 else i1)"
  have l: "snap_loop rest d rows1 j = Inr rows'"
    using Cons.prems(1) c by (simp add: j_def)
  note s1 = snap_content_shape[OF c Cons.prems(2)]
  have all1: "\<forall>r\<in>set rows1. length r = d"
    using s1 by (auto simp add: in_set_conv_nth)
  note s2 = snap_loop_shape[OF l all1]
  have "take i1 (rows' ! k) = take i1 (rows1 ! k)" if "k < length rows" for k
    using s2 s1 that take_agree_shorter[of j "rows' ! k" "rows1 ! k" i1] by (simp add: j_def)
  then have "snap_content inp d rows' i = Inr (rows', i1)"
    using snap_content_stable[OF c Cons.prems(2), of rows'] s1 s2 by simp
  moreover have "snap_loop rest d rows' j = Inr rows'"
    by (rule Cons.IH[OF l all1])
  ultimately show ?case by (simp add: j_def)
qed

text \<open>
  Hence, in exact arithmetic, \<open>snap_to_grid\<close> is idempotent on every two-dimensional
  array that is not \<open>1 \<times> 1\<close> (a single row comes back one-dimensional and is
  reshaped on the second call). The rounding of the renormalised cell is not modelled,
  and for a discrete input whose grid values are all equal the snapped cell is
  \<open>0/0\<close>, NaN in numpy: there the statement is about the model only.
\<close>

lemma snap_to_grid_idempotent_unless_1x1:
  assumes "\<forall>r\<in>set rows. length r = d" and "snap_to_grid spec (Array2 d rows) = Inr result"
      and "\<not> (length rows = 1 \<and> d = 1)"
  shows "snap_to_grid spec result = Inr result"
proof -
  obtain rows' where l: "snap_loop (inputs spec) d rows 0 = Inr rows'"
    and res: "result = (if length rows' = 1 then squeeze_row d (rows' ! 0) else Array2 d rows')"
    using assms(2) by (auto simp add: snap_2d_def split: sum.splits)
  note sh = snap_loop_shape[OF l assms(1)]
  note idem = snap_loop_idempotent[OF l assms(1)]
  show ?thesis
  proof (cases "length rows' = 1")
    case False
    then show ?thesis using res idem by (simp add: snap_2d_def)
  next
    case True
    then have d: "d \<noteq> 1" and len: "length (rows' ! 0) = d" using assms(3) sh by auto
    have rows': "rows' = [rows' ! 0]" using True by (cases rows') auto
    have "result = Array1 (rows' ! 0)" using res True d by (simp add: squeeze_row_def)
    moreover have "snap_2d spec d [rows' ! 0] = Inr (Array1 (rows' ! 0))"
      using idem rows' d True by (simp add: snap_2d_def squeeze_row_def)
    ultimately show ?thesis using len by simp
  qed
qed

text \<open>
  Claim C5 asks for \<open>project(project(x)) = project(x)\<close> on every \<open>n \<times> d\<close> array.
  For the specification with a single continuous input and the \<open>1 \<times> 1\<close> array
  \<open>[[0.3]]\<close>, the first call squeezes its result to a zero-dimensional array, and the
  second call on that result raises \<open>IndexError\<close>.
\<close>

theorem snap_to_grid_not_idempotent_1x1:
  "snap_to_grid single_spec (Array2 1 [[3/10]]) = Inr (Array0 (3/10))
   \<and> snap_to_grid single_spec (Array0 (3/10)) = Inl IndexError"
  by (simp add: snap_2d_def single_spec_def is_conditional_def squeeze_row_def)

end
